theory Spec2Isabelle
  imports Complex_Main "HOL-Library.Sublist"
begin

section \<open>Data model (app/database/db.py)\<close>

text \<open>
  \<^verbatim>\<open>ProcessingStatus\<close> is a string enumeration with four members. The status
  columns only ever receive members of the enumeration, so a datatype stands for it.
\<close>

datatype ProcessingStatus = PENDING | PROCESSING | COMPLETED | FAILED

text \<open>
  A row of table \<^verbatim>\<open>requests\<close>. The primary key \<^verbatim>\<open>id\<close> is the key of the
  map that holds the table. The two timestamp columns are written by the store only and read
  by no function of the pipeline; they are left out.
\<close>

record Request =
  status :: ProcessingStatus
  csv_filename :: string
  total_products :: int
  processed_products :: int
  webhook_triggered :: int
  webhook_url :: "string option"

text \<open>
  A row of table \<^verbatim>\<open>products\<close>. The two text columns hold JSON lists of strings;
  \<^verbatim>\<open>json.dumps\<close> followed by \<^verbatim>\<open>json.loads\<close> is the identity on such lists,
  so the columns are modelled by the lists themselves. \<^verbatim>\<open>output_image_urls\<close> is
  nullable. \<^verbatim>\<open>serial_number\<close> is kept in the textual form that an f-string prints.
  The field \<open>pid\<close> is the column \<^verbatim>\<open>id\<close>, \<open>pstatus\<close> the column \<^verbatim>\<open>status\<close>.
\<close>

record Product =
  pid :: nat
  request_id :: string
  serial_number :: string
  product_name :: string
  input_image_urls :: "string list"
  output_image_urls :: "string list option"
  pstatus :: ProcessingStatus

definition get_input_urls :: "Product \<Rightarrow> string list" where
  "get_input_urls p = input_image_urls p"

definition get_output_urls :: "Product \<Rightarrow> string list" where
  "get_output_urls p = (case output_image_urls p of None \<Rightarrow> [] | Some urls \<Rightarrow> urls)"

definition set_output_urls :: "string list \<Rightarrow> Product \<Rightarrow> Product" where
  "set_output_urls urls p = p\<lparr>output_image_urls := Some urls\<rparr>"

text \<open>
  The store: the table of requests by primary key, and the table of products as the list of
  its rows in the order in which a query without ordering clause returns them (insertion
  order).
\<close>

record database =
  requests :: "string \<rightharpoonup> Request"
  products :: "Product list"

section \<open>The world around the pipeline\<close>

text \<open>
  Exceptions are values. The pipeline catches \<^verbatim>\<open>Exception\<close> wholesale, so only the
  text that \<^verbatim>\<open>str(e)\<close> yields matters.
\<close>

datatype exn = OperationalError string | OSError string | HTTPError string

fun str_exn :: "exn \<Rightarrow> string" where
  "str_exn (OperationalError m) = m"
| "str_exn (OSError m) = m"
| "str_exn (HTTPError m) = m"

type_synonym bytes = string

record WebhookPayload =
  payload_request_id :: string
  payload_status :: ProcessingStatus
  payload_total_products :: int
  payload_processed_products :: int
  completion_percentage :: rat
  timestamp :: string

text \<open>
  Everything the code obtains from outside is an oracle, indexed by the number of
  interactions made so far (the clock of the state below):
  \<^item> \<open>db_fault\<close>: whether the store statement issued at this moment raises;
  \<^item> \<open>download\<close>: what \<^verbatim>\<open>download_image\<close> returns (it catches every exception
    itself and returns \<^verbatim>\<open>None\<close>);
  \<^item> \<open>compress\<close>: what \<^verbatim>\<open>compress_image\<close> returns, likewise;
  \<^item> \<open>uuid4\<close>: the generated name;
  \<^item> \<open>write_fault\<close>: whether opening or writing the output file raises;
  \<^item> \<open>post_fault\<close>: whether the webhook POST raises (transport error, timeout, or
    \<^verbatim>\<open>raise_for_status\<close> on a response that is not a success);
  \<^item> \<open>utcnow\<close>: the clock reading put into the payload;
  and the constants of \<^verbatim>\<open>app/config.py\<close>.
\<close>

record env =
  db_fault :: "nat \<Rightarrow> exn option"
  download :: "nat \<Rightarrow> string \<Rightarrow> bytes option"
  compress :: "bytes \<Rightarrow> bytes option"
  uuid4 :: "nat \<Rightarrow> string"
  write_fault :: "nat \<Rightarrow> exn option"
  post_fault :: "nat \<Rightarrow> string \<Rightarrow> WebhookPayload \<Rightarrow> exn option"
  utcnow :: "nat \<Rightarrow> string"
  WEBHOOK_URL :: string
  API_BASE_URL :: string
  PROCESSED_DIR :: string
  UPLOAD_DIR :: string

text \<open>
  The state threaded through the code: the store, the clock, and three logs of what the
  outside can observe: the store's contents after each successful commit (oldest first), the
  webhook requests issued (address, body, and whether the delivery succeeded), and the files
  written.
\<close>

record state =
  db :: database
  clock :: nat
  history :: "database list"
  outbox :: "(string \<times> WebhookPayload \<times> bool) list"
  files :: "(string \<times> bytes) list"

type_synonym 'a io = "state \<Rightarrow> (exn + 'a) \<times> state"

definition ret :: "'a \<Rightarrow> 'a io" where
  "ret x s = (Inr x, s)"

definition io_bind :: "'a io \<Rightarrow> ('a \<Rightarrow> 'b io) \<Rightarrow> 'b io" where
  "io_bind m f s = (case m s of (Inl x, s') \<Rightarrow> (Inl x, s') | (Inr a, s') \<Rightarrow> f a s')"

definition try_except :: "'a io \<Rightarrow> (exn \<Rightarrow> 'a io) \<Rightarrow> 'a io" where
  "try_except m h s = (case m s of (Inl x, s') \<Rightarrow> h x s' | (Inr a, s') \<Rightarrow> (Inr a, s'))"

definition tick :: "state \<Rightarrow> state" where
  "tick s = s\<lparr>clock := Suc (clock s)\<rparr>"

text \<open>
  A query statement (\<^verbatim>\<open>db.query(...).first()\<close>, \<^verbatim>\<open>.all()\<close>, \<^verbatim>\<open>.count()\<close>):
  it raises or returns what it reads.
\<close>

definition query :: "env \<Rightarrow> (database \<Rightarrow> 'a) \<Rightarrow> 'a io" where
  "query e q s =
     (case db_fault e (clock s) of
        Some x \<Rightarrow> (Inl x, tick s)
      | None \<Rightarrow> (Inr (q (db s)), tick s))"

text \<open>
  Attribute assignments followed by \<^verbatim>\<open>db.commit()\<close>: one statement that either
  raises and changes nothing in the store, or applies the assignments and is recorded in
  the history.
\<close>

definition commit :: "env \<Rightarrow> (database \<Rightarrow> database) \<Rightarrow> unit io" where
  "commit e f s =
     (case db_fault e (clock s) of
        Some x \<Rightarrow> (Inl x, tick s)
      | None \<Rightarrow> (Inr (), tick (s\<lparr>db := f (db s), history := history s @ [f (db s)]\<rparr>)))"

definition first_request :: "string \<Rightarrow> database \<Rightarrow> Request option" where
  "first_request rid d = requests d rid"

definition first_product :: "nat \<Rightarrow> database \<Rightarrow> Product option" where
  "first_product i d = find (\<lambda>p. pid p = i) (products d)"

definition all_products :: "string \<Rightarrow> database \<Rightarrow> Product list" where
  "all_products rid d = filter (\<lambda>p. request_id p = rid) (products d)"

definition count_products :: "string \<Rightarrow> (Product \<Rightarrow> bool) \<Rightarrow> database \<Rightarrow> int" where
  "count_products rid c d = int (length (filter c (all_products rid d)))"

text \<open>Writing to the attributes of the row object that a \<^verbatim>\<open>first()\<close> returned.\<close>

definition update_request :: "string \<Rightarrow> (Request \<Rightarrow> Request) \<Rightarrow> database \<Rightarrow> database" where
  "update_request rid f d =
     (case requests d rid of
        None \<Rightarrow> d
      | Some r \<Rightarrow> d\<lparr>requests := (requests d)(rid \<mapsto> f r)\<rparr>)"

fun update_first :: "nat \<Rightarrow> (Product \<Rightarrow> Product) \<Rightarrow> Product list \<Rightarrow> Product list" where
  "update_first i f [] = []"
| "update_first i f (p # ps) = (if pid p = i then f p # ps else p # update_first i f ps)"

definition update_product :: "nat \<Rightarrow> (Product \<Rightarrow> Product) \<Rightarrow> database \<Rightarrow> database" where
  "update_product i f d = d\<lparr>products := update_first i f (products d)\<rparr>"

section \<open>StatusAggregator (app/services/image_service.py, update_request_status)\<close>

text \<open>The three counting queries of the aggregation.\<close>

definition count_total :: "string \<Rightarrow> database \<Rightarrow> int" where
  "count_total rid d = count_products rid (\<lambda>p. True) d"

definition count_completed :: "string \<Rightarrow> database \<Rightarrow> int" where
  "count_completed rid d = count_products rid (\<lambda>p. pstatus p = COMPLETED) d"

definition count_failed :: "string \<Rightarrow> database \<Rightarrow> int" where
  "count_failed rid d = count_products rid (\<lambda>p. pstatus p = FAILED) d"

definition aggregate_status :: "int \<Rightarrow> int \<Rightarrow> int \<Rightarrow> ProcessingStatus \<Rightarrow> ProcessingStatus" where
  "aggregate_status total_count completed failed old =
     (if completed + failed = total_count then
        (if failed > 0 \<and> completed = 0 then FAILED else COMPLETED)
      else if completed + failed > 0 then PROCESSING
      else old)"

definition update_request_status :: "env \<Rightarrow> string \<Rightarrow> unit io" where
  "update_request_status e rid =
     io_bind (query e (first_request rid)) (\<lambda>request.
       case request of
         None \<Rightarrow> ret ()
       | Some _ \<Rightarrow>
           io_bind (query e (count_total rid)) (\<lambda>total_count.
           io_bind (query e (count_completed rid)) (\<lambda>completed.
           io_bind (query e (count_failed rid)) (\<lambda>failed.
             commit e (update_request rid (\<lambda>r.
               r\<lparr>processed_products := completed + failed,
                 status := aggregate_status total_count completed failed (status r)\<rparr>))))))"

section \<open>ItemProcessor (app/services/image_service.py)\<close>

definition download_image :: "env \<Rightarrow> string \<Rightarrow> bytes option io" where
  "download_image e url s = (Inr (download e (clock s) url), tick s)"

definition compress_image :: "env \<Rightarrow> bytes \<Rightarrow> bytes option io" where
  "compress_image e image_data = ret (compress e image_data)"

definition new_uuid4 :: "env \<Rightarrow> string io" where
  "new_uuid4 e s = (Inr (uuid4 e (clock s)), tick s)"

text \<open>\<^verbatim>\<open>with open(path, mode) as f: f.write(data)\<close>\<close>

definition write_file :: "env \<Rightarrow> string \<Rightarrow> bytes \<Rightarrow> unit io" where
  "write_file e path data s =
     (case write_fault e (clock s) of
        Some x \<Rightarrow> (Inl x, tick s)
      | None \<Rightarrow> (Inr (), tick (s\<lparr>files := files s @ [(path, data)]\<rparr>)))"

definition path_join :: "string \<Rightarrow> string \<Rightarrow> string" where
  "path_join dir name = dir @ ''/'' @ name"

definition process_image :: "env \<Rightarrow> string \<Rightarrow> string option io" where
  "process_image e url =
     io_bind (download_image e url) (\<lambda>image_data.
       case image_data of
         None \<Rightarrow> ret None
       | Some image_bytes \<Rightarrow>
           io_bind (compress_image e image_bytes) (\<lambda>compressed_data.
             case compressed_data of
               None \<Rightarrow> ret None
             | Some compressed_bytes \<Rightarrow>
                 io_bind (new_uuid4 e) (\<lambda>u.
                   let filename = u @ ''.jpg'';
                       output_path = path_join (PROCESSED_DIR e) filename
                   in io_bind (write_file e output_path compressed_bytes) (\<lambda>_.
                        ret (Some (API_BASE_URL e @ ''/api/image/'' @ filename))))))"

text \<open>
  What the loop appends for one reference: \<^verbatim>\<open>if processed_url:\<close> is false for
  \<^verbatim>\<open>None\<close> and for the empty string, and then the placeholder is appended.
\<close>

definition entry_of :: "string option \<Rightarrow> string" where
  "entry_of processed_url =
     (case processed_url of
        None \<Rightarrow> []
      | Some u \<Rightarrow> if u \<noteq> [] then u else [])"

text \<open>
  The loop over the input references, with the list \<^verbatim>\<open>output_urls\<close> built so far.
\<close>

fun process_urls :: "env \<Rightarrow> string list \<Rightarrow> string list \<Rightarrow> string list io" where
  "process_urls e [] output_urls = ret output_urls"
| "process_urls e (url # urls) output_urls =
     io_bind (process_image e url) (\<lambda>processed_url.
       process_urls e urls (output_urls @ [entry_of processed_url]))"

definition process_product_images :: "env \<Rightarrow> nat \<Rightarrow> bool io" where
  "process_product_images e product_id =
     io_bind (query e (first_product product_id)) (\<lambda>product.
       case product of
         None \<Rightarrow> ret False
       | Some p \<Rightarrow>
           io_bind (commit e (update_product product_id (\<lambda>p. p\<lparr>pstatus := PROCESSING\<rparr>))) (\<lambda>_.
             try_except
               (io_bind (process_urls e (get_input_urls p) []) (\<lambda>output_urls.
                io_bind (commit e (update_product product_id
                           (\<lambda>p. (set_output_urls output_urls p)\<lparr>pstatus := COMPLETED\<rparr>))) (\<lambda>_.
                ret True)))
               (\<lambda>x.
                io_bind (commit e (update_product product_id (\<lambda>p. p\<lparr>pstatus := FAILED\<rparr>))) (\<lambda>_.
                ret False))))"

section \<open>CompletionNotifier (app/tasks/worker.py, trigger_webhook_if_needed)\<close>

definition now :: "env \<Rightarrow> string io" where
  "now e s = (Inr (utcnow e (clock s)), tick s)"

text \<open>
  \<^verbatim>\<open>client.post(...)\<close> followed by \<^verbatim>\<open>response.raise_for_status()\<close>. The
  request is logged in the outbox with its outcome.
\<close>

definition http_post :: "env \<Rightarrow> string \<Rightarrow> WebhookPayload \<Rightarrow> unit io" where
  "http_post e url payload s =
     (case post_fault e (clock s) url payload of
        Some x \<Rightarrow> (Inl x, tick (s\<lparr>outbox := outbox s @ [(url, payload, False)]\<rparr>))
      | None \<Rightarrow> (Inr (), tick (s\<lparr>outbox := outbox s @ [(url, payload, True)]\<rparr>)))"

text \<open>
  The quotient is a Python float in the source; the model keeps the exact rational, which
  no property below depends on.
\<close>

definition percentage :: "Request \<Rightarrow> rat" where
  "percentage r =
     (if total_products r > 0
      then of_int (processed_products r) / of_int (total_products r) * 100
      else 0)"

definition trigger_webhook_if_needed :: "env \<Rightarrow> string \<Rightarrow> bool option io" where
  "trigger_webhook_if_needed e rid =
     io_bind (query e (first_request rid)) (\<lambda>request.
       case request of
         None \<Rightarrow> ret None
       | Some r \<Rightarrow>
           if webhook_triggered r \<noteq> 0 \<or> status r \<noteq> COMPLETED then ret None
           else
             let url = (case webhook_url r of
                          None \<Rightarrow> WEBHOOK_URL e
                        | Some u \<Rightarrow> if u \<noteq> [] then u else WEBHOOK_URL e)
             in if url = [] then ret None
                else
                  io_bind (now e) (\<lambda>ts.
                    let payload = \<lparr>payload_request_id = rid,
                                   payload_status = status r,
                                   payload_total_products = total_products r,
                                   payload_processed_products = processed_products r,
                                   completion_percentage = percentage r,
                                   timestamp = ts\<rparr>
                    in try_except
                         (io_bind (http_post e url payload) (\<lambda>_.
                          io_bind (commit e (update_request rid
                                     (\<lambda>r. r\<lparr>webhook_triggered := 1\<rparr>))) (\<lambda>_.
                          ret (Some True))))
                         (\<lambda>x. ret (Some False))))"

section \<open>BatchDriver (app/tasks/worker.py, process\_images)\<close>

record task_result =
  result_status :: string
  result_request_id :: string
  result_error :: "string option"

fun for_products :: "env \<Rightarrow> string \<Rightarrow> Product list \<Rightarrow> unit io" where
  "for_products e rid [] = ret ()"
| "for_products e rid (product # rest) =
     io_bind (process_product_images e (pid product)) (\<lambda>_.
     io_bind (update_request_status e rid) (\<lambda>_.
     for_products e rid rest))"

definition set_request_status :: "env \<Rightarrow> string \<Rightarrow> ProcessingStatus \<Rightarrow> unit io" where
  "set_request_status e rid st =
     io_bind (query e (first_request rid)) (\<lambda>request.
       case request of
         None \<Rightarrow> ret ()
       | Some _ \<Rightarrow> commit e (update_request rid (\<lambda>r. r\<lparr>status := st\<rparr>)))"

text \<open>The body of the \<^verbatim>\<open>try\<close> block.\<close>

definition process_images_body :: "env \<Rightarrow> string \<Rightarrow> task_result io" where
  "process_images_body e rid =
     io_bind (query e (all_products rid)) (\<lambda>batch.
     io_bind (set_request_status e rid PROCESSING) (\<lambda>_.
     io_bind (for_products e rid batch) (\<lambda>_.
     io_bind (trigger_webhook_if_needed e rid) (\<lambda>_.
     ret \<lparr>result_status = ''success'', result_request_id = rid, result_error = None\<rparr>))))"

text \<open>The \<^verbatim>\<open>except Exception as e\<close> block.\<close>

definition process_images_handler :: "env \<Rightarrow> string \<Rightarrow> exn \<Rightarrow> task_result io" where
  "process_images_handler e rid x =
     io_bind (set_request_status e rid FAILED) (\<lambda>_.
     ret \<lparr>result_status = ''error'', result_request_id = rid,
          result_error = Some (str_exn x)\<rparr>)"

text \<open>
  The coroutine that the task runs. A left result is an exception that leaves the function:
  one raised inside the \<^verbatim>\<open>except\<close> block. Opening and closing the session are not
  modelled.
\<close>

definition process_images :: "env \<Rightarrow> string \<Rightarrow> task_result io" where
  "process_images e rid = try_except (process_images_body e rid) (process_images_handler e rid)"

definition process_images_task :: "env \<Rightarrow> string \<Rightarrow> task_result io" where
  "process_images_task e rid = process_images e rid"

section \<open>Result manifest (app/services/csv_service.py, generate\_output\_csv)\<close>

fun join :: "string \<Rightarrow> string list \<Rightarrow> string" where
  "join sep [] = []"
| "join sep [x] = x"
| "join sep (x # y # ys) = x @ sep @ join sep (y # ys)"

definition csv_row :: "Product \<Rightarrow> string" where
  "csv_row p =
     serial_number p @ '','' @ product_name p @ '','' @ join '','' (get_input_urls p) @ '','' @
     join '','' (get_output_urls p) @ [CHR 10]"

definition csv_text :: "Product list \<Rightarrow> string" where
  "csv_text ps =
     (''S. No.,Product Name,Input Image Urls,Output Image Urls'' @ [CHR 10]) @ concat (map csv_row ps)"

definition generate_output_csv :: "env \<Rightarrow> string \<Rightarrow> string option io" where
  "generate_output_csv e rid =
     io_bind (query e (first_request rid)) (\<lambda>request.
       case request of
         None \<Rightarrow> ret None
       | Some r \<Rightarrow>
           if status r \<noteq> COMPLETED then ret None
           else
             io_bind (query e (all_products rid)) (\<lambda>batch.
               let output_path = path_join (UPLOAD_DIR e) (''output_'' @ rid @ ''.csv'')
               in io_bind (write_file e output_path (csv_text batch)) (\<lambda>_.
                    ret (Some output_path))))"

section \<open>Notions used to state the properties, and example worlds\<close>

definition reliable_store :: "env \<Rightarrow> bool" where
  "reliable_store e = (\<forall>n. db_fault e n = None)"

definition steps :: "(state \<Rightarrow> state \<Rightarrow> bool) \<Rightarrow> 'a io \<Rightarrow> bool" where
  "steps R m = (\<forall>s. R s (snd (m s)))"

definition preorder_rel :: "(state \<Rightarrow> state \<Rightarrow> bool) \<Rightarrow> bool" where
  "preorder_rel R = ((\<forall>s. R s s) \<and> (\<forall>s t u. R s t \<longrightarrow> R t u \<longrightarrow> R s u))"

definition keeps :: "(state \<Rightarrow> 'b) \<Rightarrow> state \<Rightarrow> state \<Rightarrow> bool" where
  "keeps g s s' = (g s' = g s)"

definition quiet :: "state \<Rightarrow> state \<Rightarrow> bool" where
  "quiet s s' =
     (outbox s' = outbox s \<and>
      (\<forall>k. rel_option (\<lambda>r r'. webhook_triggered r' = webhook_triggered r \<and> webhook_url r' = webhook_url r)
             (requests (db s) k) (requests (db s') k)))"

definition notified :: "string \<Rightarrow> state \<Rightarrow> state \<Rightarrow> bool" where
  "notified rid s s' =
     (\<exists>r url payload.
        requests (db s) rid = Some r \<and> webhook_triggered r = 0 \<and> status r = COMPLETED \<and>
        payload_request_id payload = rid \<and>
        outbox s' = outbox s @ [(url, payload, True)] \<and>
        db s' = update_request rid (\<lambda>r. r\<lparr>webhook_triggered := 1\<rparr>) (db s))"

definition attempted :: "string \<Rightarrow> state \<Rightarrow> state \<Rightarrow> bool" where
  "attempted rid s s' =
     (\<exists>r url payload ok.
        requests (db s) rid = Some r \<and> webhook_triggered r = 0 \<and> status r = COMPLETED \<and>
        outbox s' = outbox s @ [(url, payload, ok)] \<and> db s' = db s)"

definition demo_env :: env where
  "demo_env = \<lparr>db_fault = (\<lambda>n. None),
     download = (\<lambda>n url. if url = ''http://a/1.png'' then None else Some ''raw''),
     compress = (\<lambda>b. Some ''jpeg''),
     uuid4 = (\<lambda>n. ''uuid'' @ replicate n (CHR ''i'')),
     write_fault = (\<lambda>n. None),
     post_fault = (\<lambda>n u p. None), utcnow = (\<lambda>n. ''2024-01-01T00:00:00''), WEBHOOK_URL = [],
     API_BASE_URL = ''http://localhost:8000'', PROCESSED_DIR = ''/data/processed'',
     UPLOAD_DIR = ''/data/uploads''\<rparr>"

definition demo_request :: Request where
  "demo_request = \<lparr>status = PENDING, csv_filename = ''m.csv'', total_products = 2,
     processed_products = 0, webhook_triggered = 0, webhook_url = Some ''http://cb''\<rparr>"

definition demo_products :: "Product list" where
  "demo_products =
     [\<lparr>pid = 1, request_id = ''b1'', serial_number = ''1'', product_name = ''SKU1'',
        input_image_urls = [''http://a/1.png'', ''http://a/2.png''], output_image_urls = None,
        pstatus = PENDING\<rparr>,
      \<lparr>pid = 2, request_id = ''b1'', serial_number = ''2'', product_name = ''SKU2'',
        input_image_urls = [''http://a/3.png''], output_image_urls = None,
        pstatus = PENDING\<rparr>]"

definition demo_state :: state where
  "demo_state = \<lparr>db = \<lparr>requests = [''b1'' \<mapsto> demo_request], products = demo_products\<rparr>,
     clock = 0, history = [], outbox = [], files = []\<rparr>"

fun run_times :: "env \<Rightarrow> string \<Rightarrow> nat \<Rightarrow> state \<Rightarrow> state" where
  "run_times e rid 0 s = s"
| "run_times e rid (Suc n) s = run_times e rid n (snd (process_images_task e rid s))"

definition notified_state :: state where
  "notified_state = snd (process_images_task demo_env ''b1'' demo_state)"

definition count_terminal :: "string \<Rightarrow> database \<Rightarrow> int" where
  "count_terminal rid d = count_completed rid d + count_failed rid d"

definition aggregated :: "string \<Rightarrow> database \<Rightarrow> database" where
  "aggregated rid d =
     update_request rid (\<lambda>r.
       r\<lparr>processed_products := count_completed rid d + count_failed rid d,
         status := aggregate_status (count_total rid d) (count_completed rid d)
                     (count_failed rid d) (status r)\<rparr>) d"

definition empty_state :: state where
  "empty_state =
     \<lparr>db = \<lparr>requests = [''b0'' \<mapsto> demo_request\<lparr>total_products := 0\<rparr>], products = []\<rparr>,
      clock = 0, history = [], outbox = [], files = []\<rparr>"

definition done_db :: database where
  "done_db =
     \<lparr>requests = [''b1'' \<mapsto> \<lparr>status = COMPLETED, csv_filename = ''m.csv'', total_products = 2,
         processed_products = 2, webhook_triggered = 1, webhook_url = Some ''http://cb''\<rparr>],
      products =
        [\<lparr>pid = 1, request_id = ''b1'', serial_number = ''1'', product_name = ''SKU1'',
           input_image_urls = [''http://a/1.png'', ''http://a/2.png''],
           output_image_urls = Some [[], ''http://localhost:8000/api/image/uuidiiiiiii.jpg''],
           pstatus = COMPLETED\<rparr>,
         \<lparr>pid = 2, request_id = ''b1'', serial_number = ''2'', product_name = ''SKU2'',
           input_image_urls = [''http://a/3.png''],
           output_image_urls =
             Some [''http://localhost:8000/api/image/uuidiiiiiiiiiiiiiiiiii.jpg''],
           pstatus = COMPLETED\<rparr>]\<rparr>"

definition done_state :: state where
  "done_state = \<lparr>db = done_db, clock = 30, history = [], outbox = [], files = []\<rparr>"

definition fetch_transform_failed :: "env \<Rightarrow> nat \<Rightarrow> string \<Rightarrow> bool" where
  "fetch_transform_failed e c url =
     (case download e c url of
        None \<Rightarrow> True
      | Some image_bytes \<Rightarrow> compress e image_bytes = None)"

definition transformed :: "env \<Rightarrow> nat \<Rightarrow> string \<Rightarrow> bytes" where
  "transformed e c url =
     (case download e c url of
        None \<Rightarrow> []
      | Some image_bytes \<Rightarrow> (case compress e image_bytes of None \<Rightarrow> [] | Some b \<Rightarrow> b))"

definition image_url :: "env \<Rightarrow> string \<Rightarrow> string" where
  "image_url e name = API_BASE_URL e @ ''/api/image/'' @ name @ ''.jpg''"

fun reference_clocks :: "env \<Rightarrow> string list \<Rightarrow> nat \<Rightarrow> nat list" where
  "reference_clocks e [] c = []"
| "reference_clocks e (url # urls) c =
     c # reference_clocks e urls (if fetch_transform_failed e c url then Suc c else c + 3)"

definition expected_entry :: "env \<Rightarrow> string \<Rightarrow> nat \<Rightarrow> string" where
  "expected_entry e url c =
     (if fetch_transform_failed e c url then [] else image_url e (uuid4 e (Suc c)))"

definition expected_outputs :: "env \<Rightarrow> string list \<Rightarrow> nat \<Rightarrow> string list" where
  "expected_outputs e urls c = map2 (expected_entry e) urls (reference_clocks e urls c)"

definition marked_processing :: "nat \<Rightarrow> database \<Rightarrow> database" where
  "marked_processing i d = update_product i (\<lambda>p. p\<lparr>pstatus := PROCESSING\<rparr>) d"

definition marked_completed :: "nat \<Rightarrow> string list \<Rightarrow> database \<Rightarrow> database" where
  "marked_completed i outs d =
     update_product i (\<lambda>p. (set_output_urls outs p)\<lparr>pstatus := COMPLETED\<rparr>)
       (marked_processing i d)"

definition marked_failed :: "nat \<Rightarrow> database \<Rightarrow> database" where
  "marked_failed i d =
     update_product i (\<lambda>p. p\<lparr>pstatus := FAILED\<rparr>) (marked_processing i d)"

definition disk_full_env :: env where
  "disk_full_env = demo_env\<lparr>write_fault := (\<lambda>n. Some (OSError ''No space left on device''))\<rparr>"

definition single_item_state :: state where
  "single_item_state =
     \<lparr>db = \<lparr>requests = [''b2'' \<mapsto> demo_request\<lparr>total_products := 1\<rparr>],
            products =
              [\<lparr>pid = 7, request_id = ''b2'', serial_number = ''1'', product_name = ''SKU7'',
                 input_image_urls = [''http://a/2.png''], output_image_urls = None,
                 pstatus = PENDING\<rparr>]\<rparr>,
      clock = 0, history = [], outbox = [], files = []\<rparr>"

definition spec_image_url :: "env \<Rightarrow> string \<Rightarrow> string" where
  "spec_image_url e name = API_BASE_URL e @ ''/image/'' @ name @ ''.jpg''"

definition item_status :: "nat \<Rightarrow> database \<Rightarrow> ProcessingStatus option" where
  "item_status j d = map_option pstatus (first_product j d)"



fun stored_files :: "env \<Rightarrow> string list \<Rightarrow> nat \<Rightarrow> (string \<times> bytes) list" where
  "stored_files e [] c = []"
| "stored_files e (url # urls) c =
     (if fetch_transform_failed e c url then stored_files e urls (Suc c)
      else (path_join (PROCESSED_DIR e) (uuid4 e (Suc c) @ ''.jpg''), transformed e c url) #
           stored_files e urls (c + 3))"

definition locked_env :: env where
  "locked_env = demo_env\<lparr>db_fault :=
     (\<lambda>n. if 4 \<le> n then Some (OperationalError ''database is locked'') else None)\<rparr>"



definition glitch_env :: env where
  "glitch_env = demo_env\<lparr>db_fault :=
     (\<lambda>n. if n = 15 then Some (OperationalError ''database is locked'') else None)\<rparr>"

definition success_result :: "string \<Rightarrow> task_result" where
  "success_result rid = \<lparr>result_status = ''success'', result_request_id = rid, result_error = None\<rparr>"

definition error_result :: "string \<Rightarrow> exn \<Rightarrow> task_result" where
  "error_result rid x =
     \<lparr>result_status = ''error'', result_request_id = rid, result_error = Some (str_exn x)\<rparr>"

definition with_status :: "string \<Rightarrow> ProcessingStatus \<Rightarrow> database \<Rightarrow> database" where
  "with_status rid st d = update_request rid (\<lambda>r. r\<lparr>status := st\<rparr>) d"

definition concluded :: "nat \<Rightarrow> string list option \<Rightarrow> database \<Rightarrow> database" where
  "concluded i outcome d =
     (case outcome of
        None \<Rightarrow> marked_failed i d
      | Some outs \<Rightarrow> marked_completed i outs d)"

fun rounds :: "string \<Rightarrow> nat list \<Rightarrow> string list option list \<Rightarrow> database \<Rightarrow> database list" where
  "rounds rid [] outcomes d = []"
| "rounds rid (i # ids) [] d = []"
| "rounds rid (i # ids) (outcome # outcomes) d =
     marked_processing i d # concluded i outcome d # aggregated rid (concluded i outcome d) #
     rounds rid ids outcomes (aggregated rid (concluded i outcome d))"

fun rank :: "ProcessingStatus \<Rightarrow> nat" where
  "rank PENDING = 0"
| "rank PROCESSING = 1"
| "rank COMPLETED = 2"
| "rank FAILED = 2"

definition status_progress :: "string \<Rightarrow> database \<Rightarrow> database \<Rightarrow> bool" where
  "status_progress rid d d' =
     rel_option (\<lambda>r r'. rank (status r) \<le> rank (status r')) (requests d rid) (requests d' rid)"

definition count_progress :: "string \<Rightarrow> database \<Rightarrow> database \<Rightarrow> bool" where
  "count_progress rid d d' =
     rel_option (\<lambda>r r'. processed_products r \<le> processed_products r')
       (requests d rid) (requests d' rid)"

definition flagged :: "string \<Rightarrow> database \<Rightarrow> database" where
  "flagged rid d = update_request rid (\<lambda>r. r\<lparr>webhook_triggered := 1\<rparr>) d"

definition terminal_item :: "string \<Rightarrow> Product \<Rightarrow> bool" where
  "terminal_item rid p = (request_id p = rid \<and> (pstatus p = COMPLETED \<or> pstatus p = FAILED))"

definition returns :: "'a io \<Rightarrow> bool" where
  "returns m = (\<forall>s. \<exists>a s'. m s = (Inr a, s'))"

definition stuck_env :: env where
  "stuck_env = demo_env\<lparr>db_fault :=
     (\<lambda>n. if 50 \<le> n then Some (OperationalError ''database is locked'') else None)\<rparr>"

definition stale_state :: state where
  "stale_state =
     \<lparr>db = \<lparr>requests = [''b1'' \<mapsto> \<lparr>status = COMPLETED, csv_filename = ''m.csv'',
                 total_products = 2, processed_products = 2, webhook_triggered = 1,
                 webhook_url = Some ''http://cb''\<rparr>],
            products =
              [\<lparr>pid = 1, request_id = ''b1'', serial_number = ''1'', product_name = ''SKU1'',
                 input_image_urls = [''http://a/1.png'', ''http://a/2.png''],
                 output_image_urls =
                   Some [[], ''http://localhost:8000/api/image/uuidiiiiiiiiiiiiiiiiiiiiiiiiiiiiiiiiiiiii.jpg''],
                 pstatus = COMPLETED\<rparr>,
               \<lparr>pid = 2, request_id = ''b1'', serial_number = ''2'', product_name = ''SKU2'',
                 input_image_urls = [''http://a/3.png''],
                 output_image_urls =
                   Some [''http://localhost:8000/api/image/uuidiiiiiiiiiiiiiiiiii.jpg''],
                 pstatus = PROCESSING\<rparr>]\<rparr>,
      clock = 53, history = [], outbox = [], files = []\<rparr>"

section \<open>Lemmas\<close>

lemma io_bind_ret [simp]: "io_bind (ret x) f s = f x s"
  by (simp add: io_bind_def ret_def)

lemma io_bind_Inr: "m s = (Inr a, s1) \<Longrightarrow> io_bind m f s = f a s1"
  by (simp add: io_bind_def)

lemma io_bind_Inl: "m s = (Inl x, s1) \<Longrightarrow> io_bind m f s = (Inl x, s1)"
  by (simp add: io_bind_def)

lemma try_except_Inr: "m s = (Inr a, s1) \<Longrightarrow> try_except m h s = (Inr a, s1)"
  by (simp add: try_except_def)

lemma try_except_Inl: "m s = (Inl x, s1) \<Longrightarrow> try_except m h s = h x s1"
  by (simp add: try_except_def)

lemma io_bind_cases:
  assumes "io_bind m f s = (r, s')"
  obtains (raised) x where "m s = (Inl x, s')" "r = Inl x"
        | (returned) a s1 where "m s = (Inr a, s1)" "f a s1 = (r, s')"
  using assms by (auto simp: io_bind_def split: prod.splits sum.splits)

lemma try_except_cases:
  assumes "try_except m h s = (r, s')"
  obtains (caught) x s1 where "m s = (Inl x, s1)" "h x s1 = (r, s')"
        | (returned) a where "m s = (Inr a, s')" "r = Inr a"
  using assms by (auto simp: try_except_def split: prod.splits sum.splits)

lemma preorder_keeps: "preorder_rel (keeps g)"
  by (simp add: preorder_rel_def keeps_def)

lemma steps_ret: "preorder_rel R \<Longrightarrow> steps R (ret x)"
  by (simp add: steps_def preorder_rel_def ret_def)

lemma steps_bind:
  assumes "preorder_rel R" "steps R m" "\<And>a. steps R (f a)"
  shows "steps R (io_bind m f)"
proof -
  have "R s (snd (io_bind m f s))" for s
  proof (cases "m s")
    case (Pair r s1)
    have 1: "R s s1" using assms(2) Pair by (metis snd_conv steps_def)
    show ?thesis
    proof (cases r)
      case (Inl x)
      then show ?thesis using Pair 1 by (simp add: io_bind_def)
    next
      case (Inr a)
      have "R s1 (snd (f a s1))" using assms(3) by (simp add: steps_def)
      then show ?thesis using Pair Inr 1 assms(1) by (auto simp: io_bind_def preorder_rel_def)
    qed
  qed
  then show ?thesis by (simp add: steps_def)
qed

lemma steps_try:
  assumes "preorder_rel R" "steps R m" "\<And>x. steps R (h x)"
  shows "steps R (try_except m h)"
proof -
  have "R s (snd (try_except m h s))" for s
  proof (cases "m s")
    case (Pair r s1)
    have 1: "R s s1" using assms(2) Pair by (metis snd_conv steps_def)
    show ?thesis
    proof (cases r)
      case (Inr a)
      then show ?thesis using Pair 1 by (simp add: try_except_def)
    next
      case (Inl x)
      have "R s1 (snd (h x s1))" using assms(3) by (simp add: steps_def)
      then show ?thesis using Pair Inl 1 assms(1) by (auto simp: try_except_def preorder_rel_def)
    qed
  qed
  then show ?thesis by (simp add: steps_def)
qed

lemma steps_query: "(\<And>s. R s (tick s)) \<Longrightarrow> steps R (query e q)"
  by (simp add: steps_def query_def split: option.splits)

lemma steps_commit:
  assumes "\<And>s. R s (tick s)"
      and "\<And>s. R s (tick (s\<lparr>db := f (db s), history := history s @ [f (db s)]\<rparr>))"
  shows "steps R (commit e f)"
  using assms by (simp add: steps_def commit_def split: option.splits)

lemma steps_option_case:
  "steps R a \<Longrightarrow> (\<And>y. steps R (b y)) \<Longrightarrow> steps R (case x of None \<Rightarrow> a | Some y \<Rightarrow> b y)"
  by (cases x) auto


lemma steps_let: "(\<And>v. steps R (f v)) \<Longrightarrow> steps R (let v = x in f v)"
  by simp

lemma preorder_quiet: "preorder_rel quiet"
proof -
  have "quiet s s" for s
    by (simp add: quiet_def option.rel_refl)
  moreover have "quiet s u" if "quiet s t" "quiet t u" for s t u
  proof -
    have "rel_option (\<lambda>r r'. webhook_triggered r' = webhook_triggered r \<and> webhook_url r' = webhook_url r)
             (requests (db s) k) (requests (db u) k)" for k
      using that unfolding quiet_def
      by (cases "requests (db s) k"; cases "requests (db t) k"; cases "requests (db u) k")
         (auto dest!: spec [of _ k])
    then show ?thesis using that by (simp add: quiet_def)
  qed
  ultimately show ?thesis unfolding preorder_rel_def by blast
qed

lemma quiet_tick: "quiet s (tick s)"
  by (simp add: quiet_def tick_def option.rel_refl)

lemma quiet_query: "steps quiet (query e q)"
  by (rule steps_query) (rule quiet_tick)

lemma quiet_commit_product: "steps quiet (commit e (update_product i f))"
  by (rule steps_commit)
     (simp_all add: quiet_def tick_def update_product_def option.rel_refl)

lemma quiet_commit_request:
  assumes "\<And>r. webhook_triggered (f r) = webhook_triggered r \<and> webhook_url (f r) = webhook_url r"
  shows "steps quiet (commit e (update_request rid f))"
proof (rule steps_commit)
  show "quiet s (tick s)" for s by (rule quiet_tick)
  show "quiet s (tick (s\<lparr>db := update_request rid f (db s),
          history := history s @ [update_request rid f (db s)]\<rparr>))" for s
    using assms
    by (auto simp: quiet_def tick_def update_request_def option.rel_refl split: option.splits)
qed

lemma quiet_process_image: "steps quiet (process_image e url)"
  unfolding process_image_def compress_image_def
  by (intro steps_bind steps_option_case steps_ret steps_let preorder_quiet)
     (auto simp: steps_def quiet_def download_image_def new_uuid4_def write_file_def tick_def
        option.rel_refl split: option.splits)

lemma quiet_process_urls: "steps quiet (process_urls e urls acc)"
  by (induction urls arbitrary: acc)
     (auto intro!: steps_bind steps_ret preorder_quiet quiet_process_image)

lemma quiet_process_product_images: "steps quiet (process_product_images e i)"
  unfolding process_product_images_def
  by (intro steps_bind steps_try steps_option_case steps_ret preorder_quiet quiet_query
        quiet_commit_product quiet_process_urls)

lemma quiet_update_request_status: "steps quiet (update_request_status e rid)"
  unfolding update_request_status_def
  by (intro steps_bind steps_option_case steps_ret preorder_quiet quiet_query
        quiet_commit_request) simp

lemma quiet_for_products: "steps quiet (for_products e rid ps)"
  by (induction ps)
     (auto intro!: steps_bind steps_ret preorder_quiet quiet_process_product_images
        quiet_update_request_status)

lemma quiet_set_request_status: "steps quiet (set_request_status e rid st)"
  unfolding set_request_status_def
  by (intro steps_bind steps_option_case steps_ret preorder_quiet quiet_query
        quiet_commit_request) simp

lemma quiet_handler: "steps quiet (process_images_handler e rid x)"
  unfolding process_images_handler_def
  by (intro steps_bind steps_ret preorder_quiet quiet_set_request_status)

lemma trigger_cases:
  assumes "trigger_webhook_if_needed e rid s = (res, s')"
  shows "quiet s s' \<or> ((notified rid s s' \<or> attempted rid s s') \<and> (\<exists>b. res = Inr b))"
  using assms
  unfolding trigger_webhook_if_needed_def io_bind_def try_except_def query_def commit_def
    http_post_def now_def ret_def first_request_def Let_def notified_def attempted_def quiet_def
  by (auto simp: tick_def option.rel_refl split: option.splits if_splits sum.splits prod.splits)

lemma stepsD: "steps R m \<Longrightarrow> m s = (r, s') \<Longrightarrow> R s s'"
  by (auto simp: steps_def dest!: spec [of _ s])

lemma quiet_trans: "quiet s t \<Longrightarrow> quiet t u \<Longrightarrow> quiet s u"
  using preorder_quiet unfolding preorder_rel_def by blast

lemma quiet_refl: "quiet s s"
  using preorder_quiet unfolding preorder_rel_def by blast

lemma body_path:
  assumes "process_images_body e rid s = (r, s1)"
  shows "\<exists>mid. quiet s mid \<and>
           (quiet mid s1 \<or> ((notified rid mid s1 \<or> attempted rid mid s1) \<and> (\<exists>v. r = Inr v)))"
  using assms unfolding process_images_body_def
proof (cases rule: io_bind_cases)
  case (raised x)
  then show ?thesis using stepsD [OF quiet_query] quiet_refl by blast
next
  case (returned batch t1)
  note q1 = stepsD [OF quiet_query returned(1)]
  from returned(2) show ?thesis
  proof (cases rule: io_bind_cases)
    case (raised x)
    then show ?thesis using stepsD [OF quiet_set_request_status] q1 quiet_refl quiet_trans by blast
  next
    case (returned u t2)
    note q2 = quiet_trans [OF q1 stepsD [OF quiet_set_request_status returned(1)]]
    from returned(2) show ?thesis
    proof (cases rule: io_bind_cases)
      case (raised x)
      then show ?thesis using stepsD [OF quiet_for_products] q2 quiet_refl quiet_trans by blast
    next
      case (returned u t3)
      note q3 = quiet_trans [OF q2 stepsD [OF quiet_for_products returned(1)]]
      from returned(2) show ?thesis
      proof (cases rule: io_bind_cases)
        case (raised x)
        then show ?thesis using trigger_cases [of e rid t3 "Inl x" s1] q3 by auto
      next
        case (returned b t4)
        then have "s1 = t4" "\<exists>v. r = Inr v" by (auto simp: ret_def)
        then show ?thesis using trigger_cases [OF returned(1)] q3 by auto
      qed
    qed
  qed
qed

lemma notified_then_quiet:
  assumes "notified rid s t" "quiet t u"
  shows "\<exists>r'. requests (db u) rid = Some r' \<and> webhook_triggered r' = 1"
proof -
  from assms(1) obtain r where "requests (db t) rid = Some (r\<lparr>webhook_triggered := 1\<rparr>)"
    by (auto simp: notified_def update_request_def)
  with assms(2) show ?thesis
    unfolding quiet_def by (auto dest!: spec [of _ rid] elim: option.rel_cases)
qed

lemma process_images_path:
  assumes "process_images e rid s = (res, s')"
  shows "\<exists>mid. quiet s mid \<and> (quiet mid s' \<or> notified rid mid s' \<or> attempted rid mid s')"
  using assms unfolding process_images_def
proof (cases rule: try_except_cases)
  case (caught x s1)
  from body_path [OF caught(1)] obtain mid where "quiet s mid" "quiet mid s1" by auto
  with stepsD [OF quiet_handler caught(2)] show ?thesis
    using quiet_trans by blast
next
  case (returned a)
  from body_path [OF returned(1)] show ?thesis by blast
qed


lemmas model_defs = process_images_task_def process_images_def process_images_body_def
  process_images_handler_def set_request_status_def
  trigger_webhook_if_needed_def http_post_def now_def percentage_def
  process_product_images_def entry_of_def process_image_def
  download_image_def compress_image_def new_uuid4_def write_file_def path_join_def
  update_request_status_def aggregate_status_def count_total_def count_completed_def
  count_failed_def count_products_def all_products_def first_product_def first_request_def
  update_request_def update_product_def query_def commit_def tick_def
  io_bind_def try_except_def ret_def get_input_urls_def get_output_urls_def set_output_urls_def

lemma single_run_flags:
  assumes "process_images_task e rid s = (res, s')"
  shows "requests (db s) k = Some r \<Longrightarrow> webhook_triggered r \<noteq> 0 \<Longrightarrow>
           \<exists>r'. requests (db s') k = Some r' \<and> webhook_triggered r' = webhook_triggered r"
    and "requests (db s) rid = Some r \<Longrightarrow> webhook_triggered r \<noteq> 0 \<Longrightarrow> outbox s' = outbox s"
    and "requests (db s) k = Some r \<Longrightarrow> requests (db s') k = Some r' \<Longrightarrow>
           webhook_triggered r = 0 \<Longrightarrow> webhook_triggered r' \<noteq> 0 \<Longrightarrow>
           k = rid \<and> status r' = COMPLETED \<and>
           (\<exists>url payload. payload_request_id payload = rid \<and>
               outbox s' = outbox s @ [(url, payload, True)])"
proof -
  from assms obtain mid where mid: "quiet s mid"
    and alt: "quiet mid s' \<or> notified rid mid s' \<or> attempted rid mid s'"
    using process_images_path [of e rid s res s'] by (auto simp: process_images_task_def)
  have flags: "rel_option (\<lambda>r r'. webhook_triggered r' = webhook_triggered r \<and> webhook_url r' = webhook_url r)
      (requests (db s) j) (requests (db mid) j)" for j
    using mid by (simp add: quiet_def)
  have out: "outbox mid = outbox s" using mid by (simp add: quiet_def)
  {
    assume a: "requests (db s) k = Some r" "webhook_triggered r \<noteq> 0"
    from flags [of k] a obtain rm where rm: "requests (db mid) k = Some rm"
      "webhook_triggered rm = webhook_triggered r"
      by (auto elim: option.rel_cases)
    from alt show "\<exists>r'. requests (db s') k = Some r' \<and> webhook_triggered r' = webhook_triggered r"
    proof (elim disjE)
      assume "quiet mid s'"
      then show ?thesis using rm unfolding quiet_def
        by (auto dest!: spec [of _ k] elim: option.rel_cases)
    next
      assume "notified rid mid s'"
      then show ?thesis using rm a(2)
        by (auto simp: notified_def update_request_def)
    next
      assume "attempted rid mid s'"
      then show ?thesis using rm by (auto simp: attempted_def)
    qed
  }
  {
    assume a: "requests (db s) rid = Some r" "webhook_triggered r \<noteq> 0"
    from flags [of rid] a obtain rm where rm: "requests (db mid) rid = Some rm"
      "webhook_triggered rm \<noteq> 0"
      by (auto elim: option.rel_cases)
    from alt rm have "quiet mid s'"
      by (auto simp: notified_def attempted_def)
    then show "outbox s' = outbox s" using out by (simp add: quiet_def)
  }
  {
    assume a: "requests (db s) k = Some r" "requests (db s') k = Some r'"
      "webhook_triggered r = 0" "webhook_triggered r' \<noteq> 0"
    from flags [of k] a obtain rm where rm: "requests (db mid) k = Some rm"
      "webhook_triggered rm = 0"
      by (auto elim: option.rel_cases)
    have "\<not> quiet mid s'"
    proof
      assume "quiet mid s'"
      then have "rel_option (\<lambda>r r'. webhook_triggered r' = webhook_triggered r \<and> webhook_url r' = webhook_url r)
          (requests (db mid) k) (requests (db s') k)"
        by (simp add: quiet_def)
      with rm a show False by auto
    qed
    moreover have "\<not> attempted rid mid s'"
      using rm a by (auto simp: attempted_def)
    ultimately have n: "notified rid mid s'" using alt by blast
    then show "k = rid \<and> status r' = COMPLETED \<and>
           (\<exists>url payload. payload_request_id payload = rid \<and>
               outbox s' = outbox s @ [(url, payload, True)])"
      using rm a out by (auto simp: notified_def update_request_def split: if_splits)
  }
qed

lemma run_times_notified:
  assumes "requests (db s) rid = Some r" "webhook_triggered r \<noteq> 0"
  shows "outbox (run_times e rid n s) = outbox s"
  using assms
proof (induction n arbitrary: s r)
  case 0
  then show ?case by simp
next
  case (Suc n)
  obtain res s' where run: "process_images_task e rid s = (res, s')"
    by (cases "process_images_task e rid s")
  from single_run_flags(1) [OF run Suc.prems] obtain r' where
    "requests (db s') rid = Some r'" "webhook_triggered r' \<noteq> 0"
    using Suc.prems(2) by auto
  from Suc.IH [OF this] single_run_flags(2) [OF run Suc.prems] run
  show ?case by simp
qed

lemma demo_run_db: "db notified_state = done_db"
  by (simp add: notified_state_def done_db_def model_defs demo_env_def demo_state_def
      demo_request_def demo_products_def Let_def)

lemma demo_run_request:
  "requests (db notified_state) ''b1'' =
     Some \<lparr>status = COMPLETED, csv_filename = ''m.csv'', total_products = 2,
       processed_products = 2, webhook_triggered = 1, webhook_url = Some ''http://cb''\<rparr>"
  by (simp add: demo_run_db done_db_def)

lemma update_request_status_effect:
  assumes "update_request_status e rid s = (res, s')"
  shows "db s' = db s \<or> (res = Inr () \<and> requests (db s) rid \<noteq> None \<and> db s' = aggregated rid (db s))"
  using assms
  unfolding update_request_status_def io_bind_def query_def commit_def ret_def
    first_request_def aggregated_def
  by (auto simp: tick_def split: option.splits sum.splits prod.splits)

lemma update_request_status_Inr:
  assumes "update_request_status e rid s = (Inr (), s')" "requests (db s) rid = Some r"
  shows "db s' = aggregated rid (db s)"
  using assms
  unfolding update_request_status_def io_bind_def query_def commit_def ret_def
    first_request_def aggregated_def
  by (auto simp: tick_def split: option.splits sum.splits prod.splits)

lemma products_aggregated [simp]: "products (aggregated rid d) = products d"
  by (simp add: aggregated_def update_request_def split: option.splits)

lemma counts_aggregated [simp]:
  "count_total rid' (aggregated rid d) = count_total rid' d"
  "count_completed rid' (aggregated rid d) = count_completed rid' d"
  "count_failed rid' (aggregated rid d) = count_failed rid' d"
  by (simp_all add: count_total_def count_completed_def count_failed_def count_products_def
      all_products_def)

lemma aggregate_status_idem:
  "aggregate_status t c f (aggregate_status t c f old) = aggregate_status t c f old"
  by (simp add: aggregate_status_def)

lemma aggregated_idem: "aggregated rid (aggregated rid d) = aggregated rid d"
proof (cases "requests d rid")
  case None
  then show ?thesis by (simp add: aggregated_def update_request_def)
next
  case (Some r)
  then show ?thesis
    unfolding aggregated_def [of rid "aggregated rid d"] counts_aggregated
    by (simp add: aggregated_def update_request_def aggregate_status_idem)
qed

lemma counts_nonneg:
  "0 \<le> count_total rid d" "0 \<le> count_completed rid d" "0 \<le> count_failed rid d"
  by (simp_all add: count_total_def count_completed_def count_failed_def count_products_def)

lemma process_image_failed:
  assumes "fetch_transform_failed e (clock s) url"
  shows "process_image e url s = (Inr None, tick s)"
  using assms
  by (auto simp: fetch_transform_failed_def process_image_def io_bind_def download_image_def
      compress_image_def ret_def split: option.splits)

lemma process_image_write_fault:
  assumes "\<not> fetch_transform_failed e (clock s) url" "write_fault e (clock s + 2) = Some x"
  shows "process_image e url s = (Inl x, s\<lparr>clock := clock s + 3\<rparr>)"
  using assms
  by (auto simp: fetch_transform_failed_def process_image_def io_bind_def download_image_def
      compress_image_def ret_def new_uuid4_def write_file_def tick_def Let_def split: option.splits)

lemma process_image_stored:
  assumes "\<not> fetch_transform_failed e (clock s) url" "write_fault e (clock s + 2) = None"
  shows "process_image e url s =
      (Inr (Some (image_url e (uuid4 e (Suc (clock s))))),
       s\<lparr>clock := clock s + 3,
         files := files s @ [(path_join (PROCESSED_DIR e) (uuid4 e (Suc (clock s)) @ ''.jpg''),
                             transformed e (clock s) url)]\<rparr>)"
  using assms
  by (auto simp: fetch_transform_failed_def process_image_def io_bind_def download_image_def
      compress_image_def ret_def new_uuid4_def write_file_def tick_def Let_def image_url_def
      transformed_def eval_nat_numeral split: option.splits)

lemma image_url_nonempty [simp]: "image_url e name \<noteq> []"
  by (simp add: image_url_def)

lemma process_image_cases:
  assumes "process_image e url s = (r, s')"
  shows "db s' = db s \<and> history s' = history s \<and> outbox s' = outbox s \<and>
         clock s < clock s' \<and>
         ((\<exists>x c. r = Inl x \<and> clock s \<le> c \<and> c < clock s' \<and> write_fault e c = Some x) \<or>
          (r = Inr None \<and> fetch_transform_failed e (clock s) url \<and> clock s' = Suc (clock s)) \<or>
          (r = Inr (Some (image_url e (uuid4 e (Suc (clock s))))) \<and>
             \<not> fetch_transform_failed e (clock s) url \<and> clock s' = clock s + 3))"
proof (cases "fetch_transform_failed e (clock s) url")
  case True
  from process_image_failed [OF True] assms show ?thesis
    using True by (auto simp: tick_def)
next
  case False
  show ?thesis
  proof (cases "write_fault e (clock s + 2)")
    case None
    from process_image_stored [OF False None] assms show ?thesis
      using False by auto
  next
    case (Some x)
    from process_image_write_fault [OF False Some] assms have "r = Inl x" "s' = s\<lparr>clock := clock s + 3\<rparr>"
      by auto
    then show ?thesis using Some
      by (auto intro!: exI [of _ "clock s + 2"])
  qed
qed

lemma process_urls_cases:
  assumes "process_urls e urls acc s = (r, s')"
  shows "db s' = db s \<and> history s' = history s \<and> outbox s' = outbox s \<and> clock s \<le> clock s' \<and>
         ((\<exists>x c. r = Inl x \<and> clock s \<le> c \<and> c < clock s' \<and> write_fault e c = Some x) \<or>
          (r = Inr (acc @ map2 (expected_entry e) urls (reference_clocks e urls (clock s)))))"
  using assms
proof (induction urls arbitrary: acc s)
  case Nil
  then show ?case by (simp add: ret_def)
next
  case (Cons url urls)
  from Cons.prems show ?case
    unfolding process_urls.simps
  proof (cases rule: io_bind_cases)
    case (raised x)
    from process_image_cases [OF raised(1)] raised(2) show ?thesis by auto
  next
    case (returned a s1)
    note pi = process_image_cases [OF returned(1)]
    note ih = Cons.IH [OF returned(2)]
    from pi have fr: "db s1 = db s" "history s1 = history s" "outbox s1 = outbox s" "clock s < clock s1"
      by auto
    from pi have a: "entry_of a = expected_entry e url (clock s)"
      and c1: "clock s1 = (if fetch_transform_failed e (clock s) url then Suc (clock s) else clock s + 3)"
      by (auto simp: entry_of_def expected_entry_def)
    from ih show ?thesis
    proof (elim conjE disjE exE)
      fix x c
      assume "r = Inl x" "clock s1 \<le> c" "c < clock s'" "write_fault e c = Some x"
        "db s' = db s1" "history s' = history s1" "outbox s' = outbox s1" "clock s1 \<le> clock s'"
      then show ?thesis using fr by (auto intro!: exI [of _ c])
    next
      assume "r = Inr ((acc @ [entry_of a]) @ map2 (expected_entry e) urls (reference_clocks e urls (clock s1)))"
        "db s' = db s1" "history s' = history s1" "outbox s' = outbox s1" "clock s1 \<le> clock s'"
      then show ?thesis using fr a c1 by simp
    qed
  qed
qed

lemma length_reference_clocks [simp]: "length (reference_clocks e urls c) = length urls"
  by (induction urls arbitrary: c) auto

lemma query_cases:
  assumes "query e q s = (r, s')"
  obtains (fault) x where "db_fault e (clock s) = Some x" "r = Inl x" "s' = tick s"
        | (ok) "db_fault e (clock s) = None" "r = Inr (q (db s))" "s' = tick s"
  using assms by (auto simp: query_def split: option.splits)

lemma commit_cases:
  assumes "commit e f s = (r, s')"
  obtains (fault) x where "db_fault e (clock s) = Some x" "r = Inl x" "s' = tick s"
        | (ok) "db_fault e (clock s) = None" "r = Inr ()"
               "s' = tick (s\<lparr>db := f (db s), history := history s @ [f (db s)]\<rparr>)"
  using assms by (auto simp: commit_def split: option.splits)

lemma tick_simps [simp]:
  "db (tick s) = db s" "history (tick s) = history s" "outbox (tick s) = outbox s"
  "files (tick s) = files s" "clock (tick s) = Suc (clock s)"
  by (simp_all add: tick_def)

lemma commit_Inr:
  assumes "commit e f s = (Inr u, s')"
  shows "db s' = f (db s)" "history s' = history s @ [f (db s)]" "outbox s' = outbox s"
    "clock s' = Suc (clock s)" "files s' = files s" "db_fault e (clock s) = None"
  using assms by (auto simp: commit_def split: option.splits)

lemma commit_Inl:
  assumes "commit e f s = (Inl x, s')"
  shows "db s' = db s" "history s' = history s" "outbox s' = outbox s"
    "clock s' = Suc (clock s)" "files s' = files s" "db_fault e (clock s) = Some x"
  using assms by (auto simp: commit_def split: option.splits)

lemma query_Inr:
  assumes "query e q s = (Inr a, s')"
  shows "a = q (db s)" "db s' = db s" "history s' = history s" "outbox s' = outbox s"
    "clock s' = Suc (clock s)" "files s' = files s" "db_fault e (clock s) = None"
  using assms by (auto simp: query_def split: option.splits)

lemma query_Inl:
  assumes "query e q s = (Inl x, s')"
  shows "db s' = db s" "history s' = history s" "outbox s' = outbox s"
    "clock s' = Suc (clock s)" "files s' = files s" "db_fault e (clock s) = Some x"
  using assms by (auto simp: query_def split: option.splits)


lemma process_product_images_found:
  assumes run: "process_product_images e i s = (res, s')"
      and found: "first_product i (db s) = Some p"
  shows "outbox s' = outbox s \<and>
    ((\<exists>x c. res = Inl x \<and> db s' = db s \<and> history s' = history s \<and>
        clock s \<le> c \<and> c < clock s' \<and> db_fault e c = Some x) \<or>
     (res = Inr True \<and>
        db s' = marked_completed i (expected_outputs e (input_image_urls p) (clock s + 2)) (db s) \<and>
        history s' = history s @
          [marked_processing i (db s),
           marked_completed i (expected_outputs e (input_image_urls p) (clock s + 2)) (db s)]) \<or>
     (res = Inr False \<and> db s' = marked_failed i (db s) \<and>
        history s' = history s @ [marked_processing i (db s), marked_failed i (db s)] \<and>
        (\<exists>c. clock s \<le> c \<and> c < clock s' \<and> (write_fault e c \<noteq> None \<or> db_fault e c \<noteq> None))) \<or>
     (\<exists>x c. res = Inl x \<and> db s' = marked_processing i (db s) \<and>
        history s' = history s @ [marked_processing i (db s)] \<and>
        clock s \<le> c \<and> c < clock s' \<and> db_fault e c = Some x))"
  using run unfolding process_product_images_def
proof (cases rule: io_bind_cases)
  case (raised x)
  note q = query_Inl [OF raised(1)]
  have "res = Inl x \<and> db s' = db s \<and> history s' = history s \<and>
        clock s \<le> clock s \<and> clock s < clock s' \<and> db_fault e (clock s) = Some x"
    using q raised(2) by simp
  moreover have "outbox s' = outbox s" using q by simp
  ultimately show ?thesis by blast
next
  case (returned a s1)
  note q = query_Inr [OF returned(1)]
  from q(1) found have a: "a = Some p" by simp
  from returned(2) [unfolded a option.case] show ?thesis
  proof (cases rule: io_bind_cases)
    case (raised x)
    note c0 = commit_Inl [OF raised(1)]
    have "res = Inl x \<and> db s' = db s \<and> history s' = history s \<and>
        clock s \<le> clock s1 \<and> clock s1 < clock s' \<and> db_fault e (clock s1) = Some x"
      using q c0 raised(2) by simp
    moreover have "outbox s' = outbox s" using q c0 by simp
    ultimately show ?thesis by blast
  next
    case (returned u s2)
    note c1 = commit_Inr [OF returned(1)]
    have s2: "db s2 = marked_processing i (db s)"
      "history s2 = history s @ [marked_processing i (db s)]" "outbox s2 = outbox s"
      "clock s2 = clock s + 2"
      using c1 q by (simp_all add: marked_processing_def)
    from returned(2) show ?thesis
    proof (cases rule: try_except_cases)
      case (caught x s3)
      have s3all: "db s3 = db s2 \<and> history s3 = history s2 \<and> outbox s3 = outbox s2 \<and>
        clock s2 \<le> clock s3 \<and>
        (\<exists>c. clock s \<le> c \<and> c \<le> clock s3 \<and> (write_fault e c \<noteq> None \<or> db_fault e c \<noteq> None))"
        using caught(1)
      proof (cases rule: io_bind_cases)
        case (raised y)
        from process_urls_cases [OF raised(1)] obtain c where
          c: "clock s2 \<le> c" "c < clock s3" "write_fault e c = Some y"
          by auto
        from c s2(4)
        have "\<exists>c. clock s \<le> c \<and> c \<le> clock s3 \<and> (write_fault e c \<noteq> None \<or> db_fault e c \<noteq> None)"
          by (intro exI [of _ c]) simp
        with process_urls_cases [OF raised(1)] show ?thesis by simp
      next
        case (returned outs s4)
        note pu = process_urls_cases [OF returned(1)]
        from returned(2) obtain y where "commit e (update_product i
            (\<lambda>p. (set_output_urls outs p)\<lparr>pstatus := COMPLETED\<rparr>)) s4 = (Inl y, s3)"
          by (cases rule: io_bind_cases) (auto simp: ret_def)
        note c2 = commit_Inl [OF this]
        from pu s2(4) c2
        have "\<exists>c. clock s \<le> c \<and> c \<le> clock s3 \<and> (write_fault e c \<noteq> None \<or> db_fault e c \<noteq> None)"
          by (intro exI [of _ "clock s4"]) simp
        with pu c2 show ?thesis by simp
      qed
      then have s3: "db s3 = db s2" "history s3 = history s2" "outbox s3 = outbox s2"
        "clock s2 \<le> clock s3"
        by simp_all
      from s3all obtain c where flt: "clock s \<le> c" "c \<le> clock s3"
        "write_fault e c \<noteq> None \<or> db_fault e c \<noteq> None"
        by blast
      from caught(2) show ?thesis
      proof (cases rule: io_bind_cases)
        case (raised y)
        note c3 = commit_Inl [OF raised(1)]
        have "res = Inl y \<and> db s' = marked_processing i (db s) \<and>
          history s' = history s @ [marked_processing i (db s)] \<and>
          clock s \<le> clock s3 \<and> clock s3 < clock s' \<and> db_fault e (clock s3) = Some y"
          using c3 s2 s3 raised(2) by simp
        moreover have "outbox s' = outbox s" using c3 s2 s3 by simp
        ultimately show ?thesis by blast
      next
        case (returned u s5)
        note c3 = commit_Inr [OF returned(1)]
        from returned(2) have r: "res = Inr False" "s' = s5" by (simp_all add: ret_def)
        have "db s' = marked_failed i (db s)"
          "history s' = history s @ [marked_processing i (db s), marked_failed i (db s)]"
          "outbox s' = outbox s" "clock s' = Suc (clock s3)"
          using c3 s2 s3 r by (simp_all add: marked_failed_def)
        moreover have "\<exists>c. clock s \<le> c \<and> c < clock s' \<and> (write_fault e c \<noteq> None \<or> db_fault e c \<noteq> None)"
          using flt \<open>clock s' = Suc (clock s3)\<close> by (intro exI [of _ c]) simp
        ultimately show ?thesis using r(1) by blast
      qed
    next
      case (returned b)
      from returned(1) show ?thesis
      proof (cases rule: io_bind_cases)
        case (raised y)
        then show ?thesis using returned(2) by simp
      next
        case (returned outs s4)
        note pu = process_urls_cases [OF returned(1)]
        have "\<not> (\<exists>x c. Inr outs = (Inl x :: exn + string list) \<and> clock s2 \<le> c \<and> c < clock s4 \<and> write_fault e c = Some x)"
          by simp
        with pu have outs: "outs = expected_outputs e (input_image_urls p) (clock s + 2)"
          using s2(4) by (simp add: expected_outputs_def get_input_urls_def)
        from returned(2) show ?thesis
        proof (cases rule: io_bind_cases)
          case (raised y)
          then show ?thesis using \<open>res = Inr b\<close> by simp
        next
          case (returned u s5)
          note c2 = commit_Inr [OF returned(1)]
          from returned(2) \<open>res = Inr b\<close> have r: "res = Inr True" "s' = s5"
            by (simp_all add: ret_def)
          have "db s' = marked_completed i outs (db s)"
            "history s' = history s @ [marked_processing i (db s), marked_completed i outs (db s)]"
            "outbox s' = outbox s"
            using s2 pu c2 r by (simp_all add: marked_completed_def)
          then show ?thesis using outs r(1) by simp
        qed
      qed
    qed
  qed
qed

lemma find_update_first_same:
  assumes "\<And>p. pid (f p) = pid p"
  shows "find (\<lambda>p. pid p = i) (update_first i f ps) = map_option f (find (\<lambda>p. pid p = i) ps)"
  using assms by (induction ps) auto

lemma find_update_first_other:
  assumes "\<And>p. pid (f p) = pid p" "j \<noteq> i"
  shows "find (\<lambda>p. pid p = j) (update_first i f ps) = find (\<lambda>p. pid p = j) ps"
  using assms by (induction ps) auto


lemma first_product_marked_completed:
  "first_product j (marked_completed i outs d) =
     (if j = i
      then map_option (\<lambda>p. p\<lparr>output_image_urls := Some outs, pstatus := COMPLETED\<rparr>)
             (first_product i d)
      else first_product j d)"
  by (simp add: first_product_def marked_completed_def marked_processing_def update_product_def
      find_update_first_same find_update_first_other set_output_urls_def option.map_comp comp_def)

lemma first_product_marked_failed:
  "first_product j (marked_failed i d) =
     (if j = i then map_option (\<lambda>p. p\<lparr>pstatus := FAILED\<rparr>) (first_product i d)
      else first_product j d)"
  by (simp add: first_product_def marked_failed_def marked_processing_def update_product_def
      find_update_first_same find_update_first_other option.map_comp comp_def)

lemma requests_marked [simp]:
  "requests (marked_processing i d) = requests d"
  "requests (marked_completed i outs d) = requests d"
  "requests (marked_failed i d) = requests d"
  by (simp_all add: marked_processing_def marked_completed_def marked_failed_def update_product_def)

lemma length_expected_outputs [simp]: "length (expected_outputs e urls c) = length urls"
  by (simp add: expected_outputs_def)

lemma nth_expected_outputs:
  "k < length urls \<Longrightarrow>
     expected_outputs e urls c ! k = expected_entry e (urls ! k) (reference_clocks e urls c ! k)"
  by (simp add: expected_outputs_def)

lemma process_product_images_True:
  assumes "process_product_images e i s = (Inr True, s')"
      and "first_product i (db s) = Some p"
  shows "db s' = marked_completed i (expected_outputs e (input_image_urls p) (clock s + 2)) (db s)"
    and "history s' = history s @
          [marked_processing i (db s),
           marked_completed i (expected_outputs e (input_image_urls p) (clock s + 2)) (db s)]"
  using process_product_images_found [OF assms] by simp_all

lemma sublist_trans: "sublist xs ys \<Longrightarrow> sublist ys zs \<Longrightarrow> sublist xs zs"
  unfolding sublist_def by (metis append.assoc)

lemma sublist_join: "u \<in> set xs \<Longrightarrow> sublist u (join sep xs)"
proof (induction sep xs rule: join.induct)
  case (1 sep)
  then show ?case by simp
next
  case (2 sep x)
  then show ?case by simp
next
  case (3 sep x y ys)
  show ?case
  proof (cases "u = x")
    case True
    then show ?thesis by simp
  next
    case False
    with 3 have "sublist u (join sep (y # ys))" by simp
    then have "sublist u ((x @ sep) @ join sep (y # ys))"
      by (rule sublist_trans) (rule sublist_append_leftI)
    then show ?thesis by simp
  qed
qed

lemma sublist_concat: "x \<in> set xs \<Longrightarrow> sublist x (concat xs)"
proof (induction xs)
  case Nil
  then show ?case by simp
next
  case (Cons a xs)
  show ?case
  proof (cases "x = a")
    case True
    then show ?thesis by simp
  next
    case False
    with Cons have "sublist x (concat xs)" by simp
    then have "sublist x (a @ concat xs)"
      by (rule sublist_trans) (rule sublist_append_leftI)
    then show ?thesis by simp
  qed
qed

lemma sublist_csv_row:
  assumes "u \<in> set (get_output_urls q)"
  shows "sublist u (csv_row q)"
proof -
  have "sublist (join '','' (get_output_urls q)) (csv_row q)"
    unfolding csv_row_def
    by (rule sublist_appendI
        [of _ "serial_number q @ '','' @ product_name q @ '','' @ join '','' (get_input_urls q) @ '',''"
            "[CHR 10]", simplified append_assoc])
  with sublist_join [OF assms] show ?thesis by (rule sublist_trans)
qed

lemma sublist_csv_text:
  assumes "q \<in> set ps" "u \<in> set (get_output_urls q)"
  shows "sublist u (csv_text ps)"
proof -
  have "sublist (csv_row q) (concat (map csv_row ps))"
    using assms(1) by (intro sublist_concat) simp
  then have "sublist (csv_row q) (csv_text ps)"
    unfolding csv_text_def by (rule sublist_trans) (rule sublist_append_leftI)
  with sublist_csv_row [OF assms(2)] show ?thesis by (rule sublist_trans)
qed

lemma generate_output_csv_Some:
  assumes "generate_output_csv e rid s = (Inr (Some path), s')"
  shows "files s' = files s @ [(path, csv_text (all_products rid (db s)))]"
    and "path = path_join (UPLOAD_DIR e) (''output_'' @ rid @ ''.csv'')"
    and "map_option status (requests (db s) rid) = Some COMPLETED"
  using assms
  unfolding generate_output_csv_def io_bind_def query_def write_file_def ret_def
    first_request_def Let_def
  by (auto simp: tick_def split: option.splits sum.splits prod.splits if_splits)

lemma expected_entry_cases:
  "expected_entry e url c = [] \<or> expected_entry e url c = image_url e (uuid4 e (Suc c))"
  by (simp add: expected_entry_def)













lemma item_status_update_request [simp]:
  "item_status j (update_request rid f d) = item_status j d"
  by (simp add: item_status_def first_product_def update_request_def split: option.splits)











lemma process_urls_files:
  assumes "process_urls e urls acc s = (Inr outs, s')"
  shows "files s' = files s @ stored_files e urls (clock s)"
  using assms
proof (induction urls arbitrary: acc s)
  case Nil
  then show ?case by (simp add: ret_def)
next
  case (Cons url urls)
  from Cons.prems show ?case
    unfolding process_urls.simps
  proof (cases rule: io_bind_cases)
    case (returned a s1)
    note ih = Cons.IH [OF returned(2)]
    show ?thesis
    proof (cases "fetch_transform_failed e (clock s) url")
      case True
      from process_image_failed [OF True] returned(1) have "s1 = tick s" by simp
      with ih True show ?thesis by simp
    next
      case False
      show ?thesis
      proof (cases "write_fault e (clock s + 2)")
        case None
        from process_image_stored [OF False None] returned(1)
        have "files s1 = files s @ [(path_join (PROCESSED_DIR e) (uuid4 e (Suc (clock s)) @ ''.jpg''),
                             transformed e (clock s) url)]" "clock s1 = clock s + 3"
          by auto
        with ih False show ?thesis by simp
      next
        case (Some x)
        from process_image_write_fault [OF False Some] returned(1) show ?thesis by simp
      qed
    qed
  qed simp
qed

lemma stored_files_member:
  assumes "k < length urls"
      and "\<not> fetch_transform_failed e (reference_clocks e urls c ! k) (urls ! k)"
  shows "(path_join (PROCESSED_DIR e) (uuid4 e (Suc (reference_clocks e urls c ! k)) @ ''.jpg''),
          transformed e (reference_clocks e urls c ! k) (urls ! k)) \<in> set (stored_files e urls c)"
  using assms
proof (induction urls arbitrary: c k)
  case Nil
  then show ?case by simp
next
  case (Cons url urls)
  show ?case
  proof (cases k)
    case 0
    with Cons.prems show ?thesis by simp
  next
    case (Suc m)
    with Cons.prems Cons.IH [of m "if fetch_transform_failed e c url then Suc c else c + 3"]
    show ?thesis by (auto split: if_splits)
  qed
qed

lemma process_product_images_True_files:
  assumes run: "process_product_images e i s = (Inr True, s')"
      and found: "first_product i (db s) = Some p"
  shows "files s' = files s @ stored_files e (input_image_urls p) (clock s + 2)"
  using run unfolding process_product_images_def
proof (cases rule: io_bind_cases)
  case (returned a s1)
  note q = query_Inr [OF returned(1)]
  from q(1) found have a: "a = Some p" by simp
  from returned(2) [unfolded a option.case] show ?thesis
  proof (cases rule: io_bind_cases)
    case (returned u s2)
    note c1 = commit_Inr [OF returned(1)]
    from returned(2) show ?thesis
    proof (cases rule: try_except_cases)
      case (caught x s3)
      from caught(2) show ?thesis
        by (cases rule: io_bind_cases) (simp_all add: ret_def)
    next
      case (returned b)
      from returned(1) show ?thesis
      proof (cases rule: io_bind_cases)
        case (returned outs s4)
        note pf = process_urls_files [OF returned(1)]
        from returned(2) show ?thesis
        proof (cases rule: io_bind_cases)
          case (returned u s5)
          note c2 = commit_Inr [OF returned(1)]
          from returned(2) have "s' = s5" by (simp add: ret_def)
          with c2 pf c1 q show ?thesis by (simp add: get_input_urls_def)
        qed simp
      qed simp
    qed
  qed simp
qed simp

lemma reference_clocks_Suc:
  assumes "Suc k < length urls"
  shows "reference_clocks e urls c ! Suc k =
      (if fetch_transform_failed e (reference_clocks e urls c ! k) (urls ! k)
       then Suc (reference_clocks e urls c ! k) else reference_clocks e urls c ! k + 3)"
  using assms
proof (induction urls arbitrary: c k)
  case Nil
  then show ?case by simp
next
  case (Cons url urls)
  show ?case
  proof (cases k)
    case 0
    with Cons.prems show ?thesis by (cases urls) simp_all
  next
    case (Suc m)
    with Cons.prems Cons.IH [of m "if fetch_transform_failed e c url then Suc c else c + 3"]
    show ?thesis by simp
  qed
qed

lemma set_request_status_ok:
  assumes "requests (db s) rid = Some r"
      and "db_fault e (clock s) = None" "db_fault e (Suc (clock s)) = None"
  shows "set_request_status e rid st s =
      (Inr (), s\<lparr>db := with_status rid st (db s),
                 history := history s @ [with_status rid st (db s)],
                 clock := clock s + 2\<rparr>)"
  using assms
  by (simp add: set_request_status_def io_bind_def query_def commit_def first_request_def
      tick_def with_status_def)

lemma body_Inr_success:
  assumes "process_images_body e rid s = (Inr res, s1)"
  shows "res = success_result rid"
  using assms unfolding process_images_body_def
  by (elim io_bind_cases) (auto simp: ret_def success_result_def)

lemma body_Inl_request:
  assumes "process_images_body e rid s = (Inl x, s1)" "requests (db s) rid = Some r"
  shows "\<exists>r1. requests (db s1) rid = Some r1"
proof -
  from body_path [OF assms(1)] obtain mid where "quiet s mid" "quiet mid s1" by auto
  then have "quiet s s1" by (rule quiet_trans)
  then have "rel_option (\<lambda>r r'. webhook_triggered r' = webhook_triggered r \<and> webhook_url r' = webhook_url r)
      (requests (db s) rid) (requests (db s1) rid)"
    by (simp add: quiet_def)
  with assms(2) show ?thesis by (auto elim: option.rel_cases)
qed

lemma products_with_status [simp]: "products (with_status rid st d) = products d"
  by (simp add: with_status_def update_request_def split: option.splits)

lemma requests_with_status:
  "requests d rid = Some r \<Longrightarrow>
     requests (with_status rid st d) = (requests d)(rid \<mapsto> r\<lparr>status := st\<rparr>)"
  by (simp add: with_status_def update_request_def)

lemma set_request_status_query_fault:
  assumes "db_fault e (clock s) = Some y"
  shows "set_request_status e rid st s = (Inl y, s\<lparr>clock := clock s + 1\<rparr>)"
  using assms
  by (simp add: set_request_status_def io_bind_def query_def tick_def)

lemma set_request_status_commit_fault:
  assumes "requests (db s) rid = Some r"
      and "db_fault e (clock s) = None" "db_fault e (Suc (clock s)) = Some y"
  shows "set_request_status e rid st s = (Inl y, s\<lparr>clock := clock s + 2\<rparr>)"
  using assms
  by (simp add: set_request_status_def io_bind_def query_def commit_def first_request_def
      tick_def)

lemma update_first_twice:
  assumes "\<And>p. pid (f p) = pid p"
  shows "update_first i g (update_first i f ps) = update_first i (g \<circ> f) ps"
  using assms by (induction ps) auto

lemma filter_update_first_le:
  assumes "\<And>p. Q p \<Longrightarrow> Q (h p)"
  shows "length (filter Q ps) \<le> length (filter Q (update_first i h ps))"
  using assms by (induction ps) auto

lemma filter_update_first_eq:
  assumes "\<And>p. Q (h p) = Q p"
  shows "length (filter Q (update_first i h ps)) = length (filter Q ps)"
  using assms by (induction ps) auto

lemma count_terminal_filter:
  "count_terminal rid d = int (length (filter (terminal_item rid) (products d)))"
proof -
  have "length (filter (\<lambda>p. pstatus p = COMPLETED) (filter (\<lambda>p. request_id p = rid) ps)) +
        length (filter (\<lambda>p. pstatus p = FAILED) (filter (\<lambda>p. request_id p = rid) ps)) =
        length (filter (terminal_item rid) ps)" for ps
    by (induction ps) (auto simp: terminal_item_def)
  then show ?thesis
    by (simp add: count_terminal_def count_completed_def count_failed_def count_products_def
        all_products_def flip: of_nat_add)
qed

lemma count_total_filter:
  "count_total rid d = int (length (filter (\<lambda>p. request_id p = rid) (products d)))"
  by (simp add: count_total_def count_products_def all_products_def)

lemma count_terminal_le_total: "count_terminal rid d \<le> count_total rid d"
proof -
  have "length (filter (terminal_item rid) ps) \<le> length (filter (\<lambda>p. request_id p = rid) ps)" for ps
    by (induction ps) (auto simp: terminal_item_def)
  then show ?thesis by (simp add: count_terminal_filter count_total_filter)
qed

lemma products_concluded:
  "products (concluded i outcome d) =
     update_first i (case outcome of
                       None \<Rightarrow> (\<lambda>p. p\<lparr>pstatus := FAILED\<rparr>)
                     | Some outs \<Rightarrow> (\<lambda>p. p\<lparr>output_image_urls := Some outs, pstatus := COMPLETED\<rparr>))
       (products d)"
  by (cases outcome)
     (simp_all add: concluded_def marked_failed_def marked_completed_def marked_processing_def
       update_product_def update_first_twice comp_def set_output_urls_def)

lemma count_terminal_concluded: "count_terminal rid d \<le> count_terminal rid (concluded i outcome d)"
  unfolding count_terminal_filter products_concluded
  by (cases outcome) (auto intro!: filter_update_first_le simp: terminal_item_def)

lemma count_total_concluded [simp]: "count_total rid (concluded i outcome d) = count_total rid d"
  unfolding count_total_filter products_concluded
  by (cases outcome) (auto intro!: filter_update_first_eq)

lemma requests_concluded [simp]: "requests (concluded i outcome d) = requests d"
  by (cases outcome) (simp_all add: concluded_def)

lemma aggregated_request:
  assumes "requests d rid = Some r"
  shows "requests (aggregated rid d) rid =
     Some (r\<lparr>processed_products := count_terminal rid d,
             status := aggregate_status (count_total rid d) (count_completed rid d)
                         (count_failed rid d) (status r)\<rparr>)"
  using assms by (simp add: aggregated_def update_request_def count_terminal_def)

lemma count_terminal_aggregated [simp]:
  "count_terminal rid' (aggregated rid d) = count_terminal rid' d"
  by (simp add: count_terminal_def)

lemma rank_aggregate_status:
  assumes "old = COMPLETED \<or> old = FAILED \<longrightarrow> c + f = t"
  shows "rank old \<le> rank (aggregate_status t c f old)"
  using assms by (cases old) (simp_all add: aggregate_status_def)

lemma terminal_aggregate_status:
  assumes "old = COMPLETED \<or> old = FAILED \<longrightarrow> c + f = t"
      and "aggregate_status t c f old = COMPLETED \<or> aggregate_status t c f old = FAILED"
  shows "c + f = t"
  using assms by (cases old) (simp_all add: aggregate_status_def split: if_splits)

lemma status_progress_same: "requests d' = requests d \<Longrightarrow> status_progress rid d d'"
  by (simp add: status_progress_def option.rel_refl)

lemma count_progress_same: "requests d' = requests d \<Longrightarrow> count_progress rid d d'"
  by (simp add: count_progress_def option.rel_refl)

lemma settled_round:
  assumes "status r = COMPLETED \<or> status r = FAILED \<longrightarrow> count_terminal rid d = count_total rid d"
  shows "status r = COMPLETED \<or> status r = FAILED \<longrightarrow>
           count_completed rid (concluded i outcome d) + count_failed rid (concluded i outcome d)
             = count_total rid (concluded i outcome d)"
  using assms count_terminal_concluded [of rid d i outcome]
    count_terminal_le_total [of rid "concluded i outcome d"]
  by (auto simp: count_terminal_def)

lemma rounds_status_progress:
  assumes "requests d rid = Some r"
      and "status r = COMPLETED \<or> status r = FAILED \<longrightarrow> count_terminal rid d = count_total rid d"
  shows "successively (status_progress rid) (d # rounds rid ids outcomes d)"
  using assms
proof (induction rid ids outcomes d arbitrary: r rule: rounds.induct)
  case (3 rid i ids outcome outcomes d)
  let ?d2 = "concluded i outcome d"
  let ?d3 = "aggregated rid ?d2"
  let ?r3 = "r\<lparr>processed_products := count_terminal rid ?d2,
             status := aggregate_status (count_total rid ?d2) (count_completed rid ?d2)
                         (count_failed rid ?d2) (status r)\<rparr>"
  have r2: "requests ?d2 rid = Some r" using "3.prems"(1) by simp
  note r3 = aggregated_request [OF r2]
  note inv = settled_round [OF "3.prems"(2), of i outcome]
  have a: "status_progress rid d (marked_processing i d)"
    by (rule status_progress_same) simp
  have b: "status_progress rid (marked_processing i d) ?d2"
    by (rule status_progress_same) simp
  have c: "status_progress rid ?d2 ?d3"
    using rank_aggregate_status [OF inv]
    by (simp add: status_progress_def "3.prems"(1) r3)
  have "status ?r3 = COMPLETED \<or> status ?r3 = FAILED \<longrightarrow>
          count_terminal rid ?d3 = count_total rid ?d3"
    using terminal_aggregate_status [OF inv] by (auto simp: count_terminal_def)
  from "3.IH" [OF r3 this]
  have "successively (status_progress rid) (?d3 # rounds rid ids outcomes ?d3)" .
  with a b c show ?case by simp
qed simp_all

lemma rounds_count_progress:
  assumes "requests d rid = Some r"
      and "processed_products r \<le> count_terminal rid d"
  shows "successively (count_progress rid) (d # rounds rid ids outcomes d)"
  using assms
proof (induction rid ids outcomes d arbitrary: r rule: rounds.induct)
  case (3 rid i ids outcome outcomes d)
  let ?d2 = "concluded i outcome d"
  let ?d3 = "aggregated rid ?d2"
  let ?r3 = "r\<lparr>processed_products := count_terminal rid ?d2,
             status := aggregate_status (count_total rid ?d2) (count_completed rid ?d2)
                         (count_failed rid ?d2) (status r)\<rparr>"
  have r2: "requests ?d2 rid = Some r" using "3.prems"(1) by simp
  note r3 = aggregated_request [OF r2]
  have a: "count_progress rid d (marked_processing i d)"
    by (rule count_progress_same) simp
  have b: "count_progress rid (marked_processing i d) ?d2"
    by (rule count_progress_same) simp
  have c: "count_progress rid ?d2 ?d3"
    using "3.prems"(2) count_terminal_concluded [of rid d i outcome]
    by (simp add: count_progress_def "3.prems"(1) r3)
  have "processed_products ?r3 \<le> count_terminal rid ?d3" by simp
  from "3.IH" [OF r3 this]
  have "successively (count_progress rid) (?d3 # rounds rid ids outcomes ?d3)" .
  with a b c show ?case by simp
qed simp_all

lemma successively_prefix:
  assumes "successively P ys" "prefix xs ys"
  shows "successively P xs"
  using assms by (auto simp: prefix_def successively_append_iff)

lemma update_request_status_trace:
  assumes "update_request_status e rid s = (res, s')" "requests (db s) rid = Some r"
  shows "(res = Inr () \<and> db s' = aggregated rid (db s) \<and>
            history s' = history s @ [aggregated rid (db s)]) \<or>
         (\<exists>x. res = Inl x \<and> db s' = db s \<and> history s' = history s)"
  using assms
  unfolding update_request_status_def io_bind_def query_def commit_def ret_def
    first_request_def aggregated_def
  by (auto simp: tick_def split: option.splits sum.splits prod.splits)

lemma set_request_status_trace:
  assumes "set_request_status e rid st s = (res, s')" "requests (db s) rid = Some r"
  shows "(res = Inr () \<and> db s' = with_status rid st (db s) \<and>
            history s' = history s @ [with_status rid st (db s)]) \<or>
         (\<exists>x. res = Inl x \<and> db s' = db s \<and> history s' = history s)"
  using assms
  unfolding set_request_status_def io_bind_def query_def commit_def ret_def
    first_request_def with_status_def
  by (auto simp: tick_def split: option.splits sum.splits prod.splits)

lemma trigger_trace:
  assumes "trigger_webhook_if_needed e rid s = (res, s')"
  shows "(db s' = db s \<and> history s' = history s) \<or>
         (db s' = flagged rid (db s) \<and> history s' = history s @ [flagged rid (db s)] \<and>
            (\<exists>b. res = Inr b))"
  using assms
  unfolding trigger_webhook_if_needed_def io_bind_def try_except_def query_def commit_def
    http_post_def now_def ret_def first_request_def Let_def flagged_def
  by (auto simp: tick_def split: option.splits if_splits sum.splits prod.splits)

lemma first_product_concluded:
  "first_product j (concluded i outcome d) = None \<longleftrightarrow> first_product j d = None"
  by (cases outcome)
     (simp_all add: concluded_def first_product_marked_completed first_product_marked_failed)

lemma first_product_aggregated [simp]:
  "first_product j (aggregated rid d) = first_product j d"
  by (simp add: first_product_def)

lemma process_product_images_trace:
  assumes "process_product_images e i s = (res, s')" "first_product i (db s) = Some p"
  shows "(\<exists>x. res = Inl x \<and> db s' = db s \<and> history s' = history s) \<or>
         (\<exists>x. res = Inl x \<and> db s' = marked_processing i (db s) \<and>
              history s' = history s @ [marked_processing i (db s)]) \<or>
         (\<exists>b outcome. res = Inr b \<and> db s' = concluded i outcome (db s) \<and>
              history s' = history s @ [marked_processing i (db s), concluded i outcome (db s)])"
proof -
  from process_product_images_found [OF assms]
  consider (a) x where "res = Inl x" "db s' = db s" "history s' = history s"
    | (b) outs where "res = Inr True" "db s' = marked_completed i outs (db s)"
        "history s' = history s @ [marked_processing i (db s), marked_completed i outs (db s)]"
    | (c) "res = Inr False" "db s' = marked_failed i (db s)"
        "history s' = history s @ [marked_processing i (db s), marked_failed i (db s)]"
    | (d) x where "res = Inl x" "db s' = marked_processing i (db s)"
        "history s' = history s @ [marked_processing i (db s)]"
    by blast
  then show ?thesis
  proof cases
    case a
    then show ?thesis by blast
  next
    case b
    then have "res = Inr True \<and> db s' = concluded i (Some outs) (db s) \<and>
       history s' = history s @ [marked_processing i (db s), concluded i (Some outs) (db s)]"
      by (simp add: concluded_def)
    then show ?thesis by blast
  next
    case c
    then have "res = Inr False \<and> db s' = concluded i None (db s) \<and>
       history s' = history s @ [marked_processing i (db s), concluded i None (db s)]"
      by (simp add: concluded_def)
    then show ?thesis by blast
  next
    case d
    then show ?thesis by blast
  qed
qed

lemma for_products_rounds:
  assumes "for_products e rid ps s = (res, s')"
      and "requests (db s) rid = Some r"
      and "\<forall>p\<in>set ps. first_product (pid p) (db s) \<noteq> None"
  shows "\<exists>outcomes t. length outcomes \<le> length ps \<and>
           history s' = history s @ t \<and> db s' = last (db s # t) \<and>
           prefix t (rounds rid (map pid ps) outcomes (db s)) \<and>
           (res = Inr () \<longrightarrow>
              length outcomes = length ps \<and> t = rounds rid (map pid ps) outcomes (db s))"
  using assms
proof (induction ps arbitrary: s r)
  case Nil
  then have "res = Inr ()" "s' = s" by (simp_all add: ret_def)
  then have "length ([] :: string list option list) \<le> length ([] :: Product list) \<and>
           history s' = history s @ [] \<and> db s' = last (db s # []) \<and>
           prefix [] (rounds rid (map pid []) [] (db s)) \<and>
           (res = Inr () \<longrightarrow>
              length ([] :: string list option list) = length ([] :: Product list) \<and>
              [] = rounds rid (map pid []) [] (db s))"
    by simp
  then show ?case by blast
next
  case (Cons p rest)
  let ?i = "pid p"
  let ?d1 = "marked_processing ?i (db s)"
  from Cons.prems(3) obtain q where found: "first_product ?i (db s) = Some q" by auto
  from Cons.prems(1) [unfolded for_products.simps] show ?case
  proof (cases rule: io_bind_cases)
    case (raised x)
    from process_product_images_trace [OF raised(1) found]
    consider "db s' = db s" "history s' = history s"
      | "db s' = ?d1" "history s' = history s @ [?d1]"
      by auto
    then show ?thesis
    proof cases
      case 1
      with raised(2) have "length ([] :: string list option list) \<le> length (p # rest) \<and>
           history s' = history s @ [] \<and> db s' = last (db s # []) \<and>
           prefix [] (rounds rid (map pid (p # rest)) [] (db s)) \<and>
           (res = Inr () \<longrightarrow>
              length ([] :: string list option list) = length (p # rest) \<and>
              [] = rounds rid (map pid (p # rest)) [] (db s))"
        by simp
      then show ?thesis by blast
    next
      case 2
      with raised(2) have "length [None :: string list option] \<le> length (p # rest) \<and>
           history s' = history s @ [?d1] \<and> db s' = last (db s # [?d1]) \<and>
           prefix [?d1] (rounds rid (map pid (p # rest)) [None] (db s)) \<and>
           (res = Inr () \<longrightarrow>
              length [None :: string list option] = length (p # rest) \<and>
              [?d1] = rounds rid (map pid (p # rest)) [None] (db s))"
        by simp
      then show ?thesis by blast
    qed
  next
    case (returned b s1)
    from process_product_images_trace [OF returned(1) found]
    obtain outcome where s1: "db s1 = concluded ?i outcome (db s)"
      "history s1 = history s @ [?d1, concluded ?i outcome (db s)]"
      by auto
    let ?d2 = "concluded ?i outcome (db s)"
    let ?d3 = "aggregated rid ?d2"
    have r1: "requests (db s1) rid = Some r" using Cons.prems(2) s1(1) by simp
    from returned(2) show ?thesis
    proof (cases rule: io_bind_cases)
      case (raised x)
      from update_request_status_trace [OF raised(1) r1]
      have "db s' = ?d2" "history s' = history s @ [?d1, ?d2]"
        using s1 by auto
      with raised(2) have "length [outcome] \<le> length (p # rest) \<and>
           history s' = history s @ [?d1, ?d2] \<and> db s' = last (db s # [?d1, ?d2]) \<and>
           prefix [?d1, ?d2] (rounds rid (map pid (p # rest)) [outcome] (db s)) \<and>
           (res = Inr () \<longrightarrow>
              length [outcome] = length (p # rest) \<and>
              [?d1, ?d2] = rounds rid (map pid (p # rest)) [outcome] (db s))"
        by simp
      then show ?thesis by blast
    next
      case (returned u s2)
      from update_request_status_trace [OF returned(1) r1]
      have s2: "db s2 = ?d3" "history s2 = history s @ [?d1, ?d2, ?d3]"
        using s1 by auto
      have r2: "requests (db s2) rid = Some (r\<lparr>processed_products := count_terminal rid ?d2,
             status := aggregate_status (count_total rid ?d2) (count_completed rid ?d2)
                         (count_failed rid ?d2) (status r)\<rparr>)"
        unfolding s2(1) by (rule aggregated_request) (simp add: Cons.prems(2))
      have f2: "\<forall>p\<in>set rest. first_product (pid p) (db s2) \<noteq> None"
        using Cons.prems(3) by (simp add: s2(1) first_product_concluded)
      from Cons.IH [OF returned(2) r2 f2] obtain outcomes t where
        IH: "length outcomes \<le> length rest" "history s' = history s2 @ t"
          "db s' = last (db s2 # t)" "prefix t (rounds rid (map pid rest) outcomes (db s2))"
          "res = Inr () \<longrightarrow>
              length outcomes = length rest \<and> t = rounds rid (map pid rest) outcomes (db s2)"
        by blast
      have "length (outcome # outcomes) \<le> length (p # rest) \<and>
           history s' = history s @ (?d1 # ?d2 # ?d3 # t) \<and>
           db s' = last (db s # (?d1 # ?d2 # ?d3 # t)) \<and>
           prefix (?d1 # ?d2 # ?d3 # t) (rounds rid (map pid (p # rest)) (outcome # outcomes) (db s)) \<and>
           (res = Inr () \<longrightarrow>
              length (outcome # outcomes) = length (p # rest) \<and>
              ?d1 # ?d2 # ?d3 # t = rounds rid (map pid (p # rest)) (outcome # outcomes) (db s))"
        using IH s2 by simp
      then show ?thesis by blast
    qed
  qed
qed

lemma first_product_member:
  assumes "p \<in> set (all_products rid d)"
  shows "first_product (pid p) d \<noteq> None"
  using assms by (auto simp: all_products_def first_product_def find_None_iff)

lemma first_product_with_status [simp]:
  "first_product j (with_status rid st d) = first_product j d"
  by (simp add: first_product_def)

lemma body_trace:
  assumes run: "process_images_body e rid s = (res, s1)"
      and req: "requests (db s) rid = Some r"
  shows "\<exists>pre outcomes post.
      history s1 = history s @ pre @ post \<and> db s1 = last (db s # pre @ post) \<and>
      length outcomes \<le> length (all_products rid (db s)) \<and>
      prefix pre (with_status rid PROCESSING (db s) #
                  rounds rid (map pid (all_products rid (db s))) outcomes
                    (with_status rid PROCESSING (db s))) \<and>
      (post = [] \<or> (post = [flagged rid (last (db s # pre))] \<and> (\<exists>v. res = Inr v))) \<and>
      ((\<exists>v. res = Inr v) \<longrightarrow>
         length outcomes = length (all_products rid (db s)) \<and>
         pre = with_status rid PROCESSING (db s) #
               rounds rid (map pid (all_products rid (db s))) outcomes
                 (with_status rid PROCESSING (db s)))"
proof -
  define d0 where "d0 = with_status rid PROCESSING (db s)"
  define items where "items = all_products rid (db s)"
  define Goal where "Goal = (\<lambda>pre outcomes post.
      history s1 = history s @ pre @ post \<and> db s1 = last (db s # pre @ post) \<and>
      length outcomes \<le> length items \<and>
      prefix pre (d0 # rounds rid (map pid items) outcomes d0) \<and>
      (post = [] \<or> (post = [flagged rid (last (db s # pre))] \<and> (\<exists>v. res = Inr v))) \<and>
      ((\<exists>v. res = Inr v) \<longrightarrow>
         length outcomes = length items \<and> pre = d0 # rounds rid (map pid items) outcomes d0))"
  have "\<exists>pre outcomes post. Goal pre outcomes post"
    using run unfolding process_images_body_def
  proof (cases rule: io_bind_cases)
    case (raised x)
    note q = query_Inl [OF raised(1)]
    have "Goal [] ([] :: string list option list) []"
      unfolding Goal_def using q raised(2) by simp
    then show ?thesis by blast
  next
    case (returned batch t1)
    note q = query_Inr [OF returned(1)]
    have batch: "batch = items" using q(1) by (simp add: items_def)
    have r1: "requests (db t1) rid = Some r" using req q by simp
    from returned(2) show ?thesis
    proof (cases rule: io_bind_cases)
      case (raised x)
      from set_request_status_trace [OF raised(1) r1]
      have "db s1 = db s" "history s1 = history s" using q by auto
      then have "Goal [] ([] :: string list option list) []"
        unfolding Goal_def using raised(2) by simp
      then show ?thesis by blast
    next
      case (returned u t2)
      from set_request_status_trace [OF returned(1) r1]
      have t2: "db t2 = d0" "history t2 = history s @ [d0]"
        using q by (auto simp: d0_def)
      have r2: "requests (db t2) rid = Some (r\<lparr>status := PROCESSING\<rparr>)"
        using req by (simp add: t2(1) d0_def requests_with_status)
      have f2: "\<forall>p\<in>set batch. first_product (pid p) (db t2) \<noteq> None"
        using first_product_member [of _ rid "db s"]
        by (simp add: t2(1) d0_def batch items_def)
      from returned(2) show ?thesis
      proof (cases rule: io_bind_cases)
        case (raised x)
        from for_products_rounds [OF raised(1) r2 f2] obtain outcomes t where
          L: "length outcomes \<le> length batch" "history s1 = history t2 @ t"
            "db s1 = last (db t2 # t)" "prefix t (rounds rid (map pid batch) outcomes (db t2))"
          by blast
        have "Goal (d0 # t) outcomes []"
          unfolding Goal_def using L raised(2) by (simp add: t2 batch)
        then show ?thesis by blast
      next
        case (returned u' t3)
        from for_products_rounds [OF returned(1) r2 f2] obtain outcomes t where
          L: "length outcomes = length batch" "history t3 = history t2 @ t"
            "db t3 = last (db t2 # t)" "t = rounds rid (map pid batch) outcomes (db t2)"
          by (cases u') auto
        from returned(2) show ?thesis
        proof (cases rule: io_bind_cases)
          case (raised x)
          from trigger_trace [OF raised(1)] raised(2)
          have "db s1 = db t3" "history s1 = history t3" by auto
          then have "Goal (d0 # t) outcomes []"
            unfolding Goal_def using L raised(2) by (simp add: t2 batch)
          then show ?thesis by blast
        next
          case (returned b t4)
          then have fin: "s1 = t4" "\<exists>v. res = Inr v" by (auto simp: ret_def)
          from trigger_trace [OF returned(1)]
          consider "db t4 = db t3" "history t4 = history t3"
            | "db t4 = flagged rid (db t3)" "history t4 = history t3 @ [flagged rid (db t3)]"
            by auto
          then show ?thesis
          proof cases
            case 1
            then have "Goal (d0 # t) outcomes []"
              unfolding Goal_def using L fin by (simp add: t2 batch)
            then show ?thesis by blast
          next
            case 2
            then have "Goal (d0 # t) outcomes [flagged rid (db t3)]"
              unfolding Goal_def using L fin by (simp add: t2 batch)
            then show ?thesis by blast
          qed
        qed
      qed
    qed
  qed
  then show ?thesis unfolding Goal_def d0_def items_def .
qed

lemma rank_le_2: "rank st \<le> 2"
  by (cases st) simp_all

lemma status_progress_flagged: "status_progress rid d (flagged rid d)"
  by (cases "requests d rid")
     (simp_all add: status_progress_def flagged_def update_request_def)

lemma status_progress_failed: "status_progress rid d (with_status rid FAILED d)"
  by (cases "requests d rid")
     (simp_all add: status_progress_def with_status_def update_request_def rank_le_2)

lemma count_progress_flagged: "count_progress rid d (flagged rid d)"
  by (cases "requests d rid")
     (simp_all add: count_progress_def flagged_def update_request_def)

lemma count_progress_with_status: "count_progress rid d (with_status rid st d)"
  by (cases "requests d rid")
     (simp_all add: count_progress_def with_status_def update_request_def)

lemma successively_snoc:
  assumes "successively P xs" "xs = [] \<or> P (last xs) y"
  shows "successively P (xs @ [y])"
  using assms by (auto simp: successively_append_iff)

lemma count_terminal_with_status [simp]:
  "count_terminal rid' (with_status rid st d) = count_terminal rid' d"
  by (simp add: count_terminal_def count_completed_def count_failed_def count_products_def
      all_products_def)

lemma task_trace:
  assumes req: "requests (db s) rid = Some r"
      and run: "process_images_task e rid s = (res, s')"
  shows "\<exists>pre outcomes post.
      history s' = history s @ pre @ post \<and> db s' = last (db s # pre @ post) \<and>
      length outcomes \<le> length (all_products rid (db s)) \<and>
      prefix pre (with_status rid PROCESSING (db s) #
                  rounds rid (map pid (all_products rid (db s))) outcomes
                    (with_status rid PROCESSING (db s))) \<and>
      (post = [] \<or> post = [flagged rid (last (db s # pre))] \<or>
       post = [with_status rid FAILED (last (db s # pre))]) \<and>
      (res = Inr (success_result rid) \<longrightarrow>
         length outcomes = length (all_products rid (db s)) \<and>
         pre = with_status rid PROCESSING (db s) #
               rounds rid (map pid (all_products rid (db s))) outcomes
                 (with_status rid PROCESSING (db s)))"
proof -
  define d0 where "d0 = with_status rid PROCESSING (db s)"
  define items where "items = all_products rid (db s)"
  define Goal where "Goal = (\<lambda>pre outcomes post.
      history s' = history s @ pre @ post \<and> db s' = last (db s # pre @ post) \<and>
      length outcomes \<le> length items \<and>
      prefix pre (d0 # rounds rid (map pid items) outcomes d0) \<and>
      (post = [] \<or> post = [flagged rid (last (db s # pre))] \<or>
       post = [with_status rid FAILED (last (db s # pre))]) \<and>
      (res = Inr (success_result rid) \<longrightarrow>
         length outcomes = length items \<and> pre = d0 # rounds rid (map pid items) outcomes d0))"
  have "\<exists>pre outcomes post. Goal pre outcomes post"
    using run unfolding process_images_task_def process_images_def
  proof (cases rule: try_except_cases)
    case (caught x s1)
    from body_trace [OF caught(1) req, folded d0_def items_def]
    obtain pre outcomes where
      B: "history s1 = history s @ pre" "db s1 = last (db s # pre)"
        "length outcomes \<le> length items"
        "prefix pre (d0 # rounds rid (map pid items) outcomes d0)"
      by auto
    from body_Inl_request [OF caught(1) req] obtain r1 where r1: "requests (db s1) rid = Some r1"
      by blast
    from caught(2) [unfolded process_images_handler_def] show ?thesis
    proof (cases rule: io_bind_cases)
      case (raised y)
      from set_request_status_trace [OF raised(1) r1]
      have "db s' = db s1" "history s' = history s1" by auto
      then have "Goal pre outcomes []"
        unfolding Goal_def using B raised(2) by simp
      then show ?thesis by blast
    next
      case (returned u t)
      then have fin: "s' = t" "res \<noteq> Inr (success_result rid)"
        by (auto simp: ret_def success_result_def)
      from set_request_status_trace [OF returned(1) r1]
      have "db t = with_status rid FAILED (db s1)"
        "history t = history s1 @ [with_status rid FAILED (db s1)]"
        by auto
      then have "Goal pre outcomes [with_status rid FAILED (last (db s # pre))]"
        unfolding Goal_def using B fin by simp
      then show ?thesis by blast
    qed
  next
    case (returned a)
    from body_trace [OF returned(1) req, folded d0_def items_def]
    obtain pre outcomes post where
      B: "history s' = history s @ pre @ post" "db s' = last (db s # pre @ post)"
        "length outcomes = length items"
        "pre = d0 # rounds rid (map pid items) outcomes d0"
        "post = [] \<or> post = [flagged rid (last (db s # pre))]"
      by auto
    then have "Goal pre outcomes post"
      unfolding Goal_def by auto
    then show ?thesis by blast
  qed
  then show ?thesis unfolding Goal_def d0_def items_def .
qed

lemma returns_ret: "returns (ret x)"
  by (simp add: returns_def ret_def)

lemma returns_bind:
  assumes "returns m" "\<And>a. returns (f a)"
  shows "returns (io_bind m f)"
  unfolding returns_def
proof
  fix s
  from assms(1) obtain a s1 where "m s = (Inr a, s1)" unfolding returns_def by blast
  moreover from assms(2) obtain b s2 where "f a s1 = (Inr b, s2)" unfolding returns_def by blast
  ultimately show "\<exists>b s'. io_bind m f s = (Inr b, s')" by (simp add: io_bind_def)
qed

lemma returns_try:
  assumes "\<And>x. returns (h x)"
  shows "returns (try_except m h)"
  unfolding returns_def
proof
  fix s
  obtain res s1 where m: "m s = (res, s1)" by (cases "m s")
  show "\<exists>b s'. try_except m h s = (Inr b, s')"
  proof (cases res)
    case (Inl x)
    from assms obtain b s2 where "h x s1 = (Inr b, s2)" unfolding returns_def by blast
    with m Inl show ?thesis by (simp add: try_except_def)
  next
    case (Inr a)
    with m show ?thesis by (simp add: try_except_def)
  qed
qed

lemma returns_query: "reliable_store e \<Longrightarrow> returns (query e q)"
  by (simp add: returns_def query_def reliable_store_def)

lemma returns_commit: "reliable_store e \<Longrightarrow> returns (commit e f)"
  by (simp add: returns_def commit_def reliable_store_def)

lemma returns_option_case:
  assumes "returns a" "\<And>v. returns (f v)"
  shows "returns (case x of None \<Rightarrow> a | Some v \<Rightarrow> f v)"
  using assms by (cases x) simp_all

lemma returns_if: "returns a \<Longrightarrow> returns b \<Longrightarrow> returns (if c then a else b)"
  by simp

lemma returns_let: "(\<And>v. returns (f v)) \<Longrightarrow> returns (let v = x in f v)"
  by simp

lemma returns_process_product_images:
  "reliable_store e \<Longrightarrow> returns (process_product_images e i)"
  unfolding process_product_images_def
  by (intro returns_bind returns_query returns_commit returns_try returns_ret
      returns_option_case)

lemma returns_update_request_status:
  "reliable_store e \<Longrightarrow> returns (update_request_status e rid)"
  unfolding update_request_status_def
  by (intro returns_bind returns_query returns_commit returns_ret returns_option_case)

lemma returns_for_products: "reliable_store e \<Longrightarrow> returns (for_products e rid ps)"
  by (induction ps)
     (auto intro!: returns_bind returns_ret returns_process_product_images
        returns_update_request_status)

lemma returns_set_request_status:
  "reliable_store e \<Longrightarrow> returns (set_request_status e rid st)"
  unfolding set_request_status_def
  by (intro returns_bind returns_query returns_commit returns_ret returns_option_case)

lemma returns_now: "returns (now e)"
  by (simp add: returns_def now_def)

lemma returns_trigger:
  "reliable_store e \<Longrightarrow> returns (trigger_webhook_if_needed e rid)"
  unfolding trigger_webhook_if_needed_def
  by (intro returns_bind returns_query returns_try returns_ret returns_now
      returns_option_case returns_if returns_let)

lemma returns_body: "reliable_store e \<Longrightarrow> returns (process_images_body e rid)"
  unfolding process_images_body_def
  by (intro returns_bind returns_query returns_ret returns_set_request_status
      returns_for_products returns_trigger)

lemma task_reliable:
  assumes "reliable_store e" "process_images_task e rid s = (res, s')"
  shows "res = Inr (success_result rid)"
proof -
  from returns_body [OF assms(1), of rid] obtain a s1 where
    b: "process_images_body e rid s = (Inr a, s1)"
    unfolding returns_def by blast
  from body_Inr_success [OF b] b assms(2) show ?thesis
    by (simp add: process_images_task_def process_images_def try_except_def)
qed

section \<open>The claims\<close>

text \<open>
  C1. For every batch the notification-sent flag is never reset, so it goes from false to true
  at most once; when a run of \<open>process_images_task\<close> raises the flag of a batch, that batch
  is the one being processed, its aggregate status is \<open>COMPLETED\<close>, and the run has issued
  exactly one callback, which was delivered successfully; and when the flag of the batch is
  already true, neither one run nor any number of repeated runs issues a callback.
\<close>

theorem notification_sent_at_most_once:
  assumes "process_images_task e rid s = (res, s')"
  shows "(\<forall>k r. requests (db s) k = Some r \<and> webhook_triggered r \<noteq> 0 \<longrightarrow>
            (\<exists>r'. requests (db s') k = Some r' \<and> webhook_triggered r' = webhook_triggered r)) \<and>
         (\<forall>k r r'. requests (db s) k = Some r \<and> requests (db s') k = Some r' \<and>
            webhook_triggered r = 0 \<and> webhook_triggered r' \<noteq> 0 \<longrightarrow>
            k = rid \<and> status r' = COMPLETED \<and>
            (\<exists>url payload. payload_request_id payload = rid \<and>
               outbox s' = outbox s @ [(url, payload, True)])) \<and>
         (\<forall>r n. requests (db s) rid = Some r \<and> webhook_triggered r \<noteq> 0 \<longrightarrow>
            outbox s' = outbox s \<and> outbox (run_times e rid n s) = outbox s)"
  using single_run_flags [OF assms] run_times_notified [of s rid]
  by blast

theorem notification_sent_at_most_once_witness:
  "requests (db demo_state) ''b1'' = Some demo_request \<and> webhook_triggered demo_request = 0 \<and>
   map_option webhook_triggered (requests (db notified_state) ''b1'') = Some 1 \<and>
   map_option status (requests (db notified_state) ''b1'') = Some COMPLETED \<and>
   (\<exists>url payload. payload_request_id payload = ''b1'' \<and>
      outbox notified_state = outbox demo_state @ [(url, payload, True)]) \<and>
   outbox (run_times demo_env ''b1'' 3 notified_state) = outbox notified_state"
proof -
  have run: "process_images_task demo_env ''b1'' demo_state =
      (fst (process_images_task demo_env ''b1'' demo_state), notified_state)"
    by (simp add: notified_state_def)
  have run2: "process_images_task demo_env ''b1'' notified_state =
      (fst (process_images_task demo_env ''b1'' notified_state),
       snd (process_images_task demo_env ''b1'' notified_state))"
    by simp
  have r0: "requests (db demo_state) ''b1'' = Some demo_request"
    by (simp add: demo_state_def)
  have f0: "webhook_triggered demo_request = 0"
    by (simp add: demo_request_def)
  note r1 = demo_run_request
  from notification_sent_at_most_once [OF run]
  have "\<And>k r r'. requests (db demo_state) k = Some r \<Longrightarrow>
      requests (db notified_state) k = Some r' \<Longrightarrow>
      webhook_triggered r = 0 \<Longrightarrow> webhook_triggered r' \<noteq> 0 \<Longrightarrow>
      \<exists>url payload. payload_request_id payload = rid0 \<and>
        outbox notified_state = outbox demo_state @ [(url, payload, True)]"
    if "rid0 = ''b1''" for rid0
    using that by blast
  from this [OF refl r0 r1 f0]
  have "\<exists>url payload. payload_request_id payload = ''b1'' \<and>
      outbox notified_state = outbox demo_state @ [(url, payload, True)]"
    by simp
  moreover from notification_sent_at_most_once [OF run2]
  have "\<And>r n. requests (db notified_state) ''b1'' = Some r \<Longrightarrow> webhook_triggered r \<noteq> 0 \<Longrightarrow>
      outbox (run_times demo_env ''b1'' n notified_state) = outbox notified_state"
    by blast
  from this [OF r1]
  have "outbox (run_times demo_env ''b1'' 3 notified_state) = outbox notified_state"
    by simp
  ultimately show ?thesis using r0 f0 r1 by simp
qed

text \<open>
  C2, as stated, fails on the batch without items: no item is \<open>COMPLETED\<close> and no item is
  terminal, yet the aggregation sets the status from \<open>PENDING\<close> to \<open>COMPLETED\<close>.
\<close>

theorem aggregation_empty_batch_counterexample:
  "count_total ''b0'' (db empty_state) = 0 \<and>
   count_terminal ''b0'' (db empty_state) = 0 \<and>
   count_completed ''b0'' (db empty_state) = 0 \<and>
   map_option status (requests (db empty_state) ''b0'') = Some PENDING \<and>
   fst (update_request_status demo_env ''b0'' empty_state) = Inr () \<and>
   map_option status (requests (db (snd (update_request_status demo_env ''b0'' empty_state))) ''b0'')
     = Some COMPLETED"
  by (simp add: model_defs count_terminal_def empty_state_def demo_env_def demo_request_def)

text \<open>
  C2, amended. After an aggregation step that returns on an existing batch, the processed
  count is the number of terminal items, and
  \<^item> when at least one item is terminal: the status is \<open>COMPLETED\<close> if and only if all items are
    terminal and at least one is \<open>COMPLETED\<close>; it is \<open>FAILED\<close> if and only if all items are
    terminal and none is \<open>COMPLETED\<close>; it is \<open>PROCESSING\<close> when not all items are terminal;
  \<^item> when no item is terminal and the batch has items, the status is left unchanged;
  \<^item> when the batch has no items, the status is \<open>COMPLETED\<close>.
\<close>

theorem aggregation_rule:
  assumes "requests (db s) rid = Some r"
      and "update_request_status e rid s = (Inr (), s')"
  shows "\<exists>r'. requests (db s') rid = Some r' \<and>
           products (db s') = products (db s) \<and>
           processed_products r' = count_terminal rid (db s') \<and>
           (0 < count_terminal rid (db s') \<longrightarrow>
              (status r' = COMPLETED \<longleftrightarrow>
                 count_terminal rid (db s') = count_total rid (db s') \<and>
                 1 \<le> count_completed rid (db s')) \<and>
              (status r' = FAILED \<longleftrightarrow>
                 count_terminal rid (db s') = count_total rid (db s') \<and>
                 count_completed rid (db s') = 0) \<and>
              (count_terminal rid (db s') \<noteq> count_total rid (db s') \<longrightarrow> status r' = PROCESSING)) \<and>
           (count_terminal rid (db s') = 0 \<and> 0 < count_total rid (db s') \<longrightarrow> status r' = status r) \<and>
           (count_total rid (db s') = 0 \<longrightarrow> status r' = COMPLETED)"
proof -
  have d: "db s' = aggregated rid (db s)"
    using update_request_status_Inr [OF assms(2) assms(1)] .
  define r' where "r' = r\<lparr>processed_products := count_completed rid (db s) + count_failed rid (db s),
         status := aggregate_status (count_total rid (db s)) (count_completed rid (db s))
                     (count_failed rid (db s)) (status r)\<rparr>"
  have r': "requests (aggregated rid (db s)) rid = Some r'"
    using assms(1) by (simp add: aggregated_def update_request_def r'_def)
  have z: "count_total rid (db s) = 0 \<Longrightarrow> count_completed rid (db s) = 0 \<and> count_failed rid (db s) = 0"
    by (simp add: count_total_def count_completed_def count_failed_def count_products_def)
  have p: "processed_products r' = count_completed rid (db s) + count_failed rid (db s)"
    by (simp add: r'_def)
  have st: "status r' = aggregate_status (count_total rid (db s)) (count_completed rid (db s))
                     (count_failed rid (db s)) (status r)"
    by (simp add: r'_def)
  show ?thesis
    unfolding d
    using counts_nonneg [of rid "db s"] z
    by (intro exI [of _ r'])
       (auto simp: r' p st count_terminal_def aggregate_status_def)
qed


theorem aggregation_rule_witness:
  "requests (db done_state) ''b1'' \<noteq> None \<and>
   fst (update_request_status demo_env ''b1'' done_state) = Inr () \<and>
   count_terminal ''b1'' (db (snd (update_request_status demo_env ''b1'' done_state))) = 2 \<and>
   count_total ''b1'' (db (snd (update_request_status demo_env ''b1'' done_state))) = 2 \<and>
   count_completed ''b1'' (db (snd (update_request_status demo_env ''b1'' done_state))) = 2 \<and>
   (\<exists>r'. requests (db (snd (update_request_status demo_env ''b1'' done_state))) ''b1'' = Some r' \<and>
      processed_products r' = 2 \<and> status r' = COMPLETED)"
proof -
  have ok: "fst (update_request_status demo_env ''b1'' done_state) = Inr ()"
    by (simp add: done_state_def done_db_def model_defs demo_env_def)
  then have run: "update_request_status demo_env ''b1'' done_state =
      (Inr (), snd (update_request_status demo_env ''b1'' done_state))"
    by (metis prod.collapse)
  have r: "requests (db done_state) ''b1'' = Some \<lparr>status = COMPLETED, csv_filename = ''m.csv'',
      total_products = 2, processed_products = 2, webhook_triggered = 1,
      webhook_url = Some ''http://cb''\<rparr>"
    by (simp add: done_state_def done_db_def)
  have c: "count_terminal ''b1'' (db (snd (update_request_status demo_env ''b1'' done_state))) = 2"
     "count_total ''b1'' (db (snd (update_request_status demo_env ''b1'' done_state))) = 2"
     "count_completed ''b1'' (db (snd (update_request_status demo_env ''b1'' done_state))) = 2"
    by (simp_all add: count_terminal_def done_state_def done_db_def model_defs demo_env_def)
  from aggregation_rule [OF r run] c
  show ?thesis using ok r by auto
qed

text \<open>
  C8. Running the aggregation step again after a run that returned, with the items untouched,
  leaves the store as the first run left it: same processed count, same batch status. This
  holds whether the second run returns or raises.
\<close>

theorem aggregation_idempotent:
  assumes "update_request_status e rid s = (Inr (), s1)"
      and "update_request_status e rid s1 = (res2, s2)"
  shows "db s2 = db s1 \<and>
         map_option processed_products (requests (db s2) rid) =
           map_option processed_products (requests (db s1) rid) \<and>
         map_option status (requests (db s2) rid) = map_option status (requests (db s1) rid)"
proof -
  have "db s2 = db s1"
  proof (cases "requests (db s) rid")
    case None
    then have "db s1 = db s"
      using update_request_status_effect [OF assms(1)] by auto
    with None update_request_status_effect [OF assms(2)] show ?thesis by auto
  next
    case (Some r)
    have "db s1 = aggregated rid (db s)"
      using update_request_status_Inr [OF assms(1) Some] .
    with update_request_status_effect [OF assms(2)] show ?thesis
      by (auto simp: aggregated_idem)
  qed
  then show ?thesis by simp
qed

theorem aggregation_idempotent_witness:
  "fst (update_request_status demo_env ''b1'' done_state) = Inr () \<and>
   db (snd (update_request_status demo_env ''b1''
         (snd (update_request_status demo_env ''b1'' done_state)))) =
   db (snd (update_request_status demo_env ''b1'' done_state))"
proof -
  have ok: "fst (update_request_status demo_env ''b1'' done_state) = Inr ()"
    by (simp add: done_state_def done_db_def model_defs demo_env_def)
  then have run: "update_request_status demo_env ''b1'' done_state =
      (Inr (), snd (update_request_status demo_env ''b1'' done_state))"
    by (metis prod.collapse)
  from aggregation_idempotent [OF run prod.collapse [symmetric]] ok
  show ?thesis by simp
qed

text \<open>
  C3, as stated, fails for an item that ends \<open>FAILED\<close>: when writing the transformed image
  raises, the item processor marks the item \<open>FAILED\<close> and never stores the output list, so an
  item with one input reference ends \<open>FAILED\<close> with an empty output list.
\<close>

theorem failed_item_outputs_counterexample:
  "map_option pstatus
     (first_product 7 (db (snd (process_product_images disk_full_env 7 single_item_state))))
     = Some FAILED \<and>
   map_option get_input_urls
     (first_product 7 (db (snd (process_product_images disk_full_env 7 single_item_state))))
     = Some [''http://a/2.png''] \<and>
   map_option get_output_urls
     (first_product 7 (db (snd (process_product_images disk_full_env 7 single_item_state))))
     = Some []"
  by (simp add: model_defs disk_full_env_def demo_env_def single_item_state_def Let_def)

text \<open>
  C3, amended. Once the item processor has set an item to \<open>COMPLETED\<close> (its run returned
  \<open>True\<close>), the input list is unchanged, the persisted output list has the length of the input
  list, and entry \<open>k\<close> belongs to input reference \<open>k\<close>: it is the placeholder when the fetch or
  the transform of reference \<open>k\<close> failed, and otherwise the URL of the image generated for
  reference \<open>k\<close>.
\<close>

theorem completed_item_outputs:
  assumes "process_product_images e i s = (Inr True, s')"
      and "first_product i (db s) = Some p"
  shows "\<exists>p'. first_product i (db s') = Some p' \<and> pstatus p' = COMPLETED \<and>
           get_input_urls p' = get_input_urls p \<and>
           length (get_output_urls p') = length (get_input_urls p') \<and>
           (\<forall>k < length (get_input_urls p').
              get_output_urls p' ! k =
                (if fetch_transform_failed e
                      (reference_clocks e (get_input_urls p') (clock s + 2) ! k)
                      (get_input_urls p' ! k)
                 then []
                 else image_url e
                        (uuid4 e (Suc (reference_clocks e (get_input_urls p') (clock s + 2) ! k)))))"
proof -
  let ?outs = "expected_outputs e (input_image_urls p) (clock s + 2)"
  let ?p' = "p\<lparr>output_image_urls := Some ?outs, pstatus := COMPLETED\<rparr>"
  have "first_product i (db s') = Some ?p'"
    using process_product_images_True(1) [OF assms] assms(2)
    by (simp add: first_product_marked_completed)
  moreover have "\<forall>k < length (input_image_urls p).
      ?outs ! k =
        (if fetch_transform_failed e (reference_clocks e (input_image_urls p) (clock s + 2) ! k)
              (input_image_urls p ! k)
         then []
         else image_url e (uuid4 e (Suc (reference_clocks e (input_image_urls p) (clock s + 2) ! k))))"
    by (simp add: nth_expected_outputs expected_entry_def)
  ultimately show ?thesis
    by (intro exI [of _ ?p']) (simp add: get_input_urls_def get_output_urls_def)
qed


theorem completed_item_outputs_witness:
  "fst (process_product_images demo_env 1 demo_state) = Inr True \<and>
   map_option get_input_urls (first_product 1 (db demo_state))
     = Some [''http://a/1.png'', ''http://a/2.png''] \<and>
   fetch_transform_failed demo_env 2 ''http://a/1.png'' \<and>
   \<not> fetch_transform_failed demo_env 3 ''http://a/2.png'' \<and>
   (\<exists>p'. first_product 1 (db (snd (process_product_images demo_env 1 demo_state))) = Some p' \<and>
      pstatus p' = COMPLETED \<and>
      length (get_output_urls p') = length (get_input_urls p') \<and>
      get_output_urls p' = [[], ''http://localhost:8000/api/image/uuidiiii.jpg''])"
proof -
  have ok: "fst (process_product_images demo_env 1 demo_state) = Inr True"
    by (simp add: model_defs demo_env_def demo_state_def demo_products_def demo_request_def Let_def)
  then have run: "process_product_images demo_env 1 demo_state =
      (Inr True, snd (process_product_images demo_env 1 demo_state))"
    by (metis prod.collapse)
  have found: "first_product 1 (db demo_state) = Some (hd demo_products)"
    by (simp add: first_product_def demo_state_def demo_products_def)
  have outs: "map_option get_output_urls
      (first_product 1 (db (snd (process_product_images demo_env 1 demo_state))))
      = Some [[], ''http://localhost:8000/api/image/uuidiiii.jpg'']"
    by (simp add: model_defs demo_env_def demo_state_def demo_products_def demo_request_def Let_def)
  from completed_item_outputs [OF run found] obtain p' where
    "first_product 1 (db (snd (process_product_images demo_env 1 demo_state))) = Some p'"
    "pstatus p' = COMPLETED" "length (get_output_urls p') = length (get_input_urls p')"
    by blast
  moreover from this outs have "get_output_urls p' = [[], ''http://localhost:8000/api/image/uuidiiii.jpg'']"
    by simp
  moreover have "map_option get_input_urls (first_product 1 (db demo_state))
     = Some [''http://a/1.png'', ''http://a/2.png'']"
    using found by (simp add: get_input_urls_def demo_products_def)
  moreover have "fetch_transform_failed demo_env 2 ''http://a/1.png''"
    "\<not> fetch_transform_failed demo_env 3 ''http://a/2.png''"
    by (simp_all add: fetch_transform_failed_def demo_env_def)
  ultimately show ?thesis using ok by blast
qed

text \<open>
  C9, as stated, fails: \<open>spec_image_url\<close> is the URL in the words of the specification, the
  path \<^verbatim>\<open>/image/{generated-name}.jpg\<close> on the base address. The URL that
  \<open>process_image\<close> returns for the generated name \<^verbatim>\<open>uuidi\<close> has the path
  \<^verbatim>\<open>/api/image/uuidi.jpg\<close> instead.
\<close>

theorem image_url_form_counterexample:
  "uuid4 demo_env 1 = ''uuidi'' \<and>
   fst (process_image demo_env ''http://a/2.png'' demo_state)
     = Inr (Some ''http://localhost:8000/api/image/uuidi.jpg'') \<and>
   spec_image_url demo_env ''uuidi'' = ''http://localhost:8000/image/uuidi.jpg'' \<and>
   fst (process_image demo_env ''http://a/2.png'' demo_state)
     \<noteq> Inr (Some (spec_image_url demo_env ''uuidi''))"
  by (simp add: model_defs spec_image_url_def demo_env_def demo_state_def Let_def)

text \<open>
  C9, amended. Every non-placeholder entry that the item processor writes to an output list is
  the base address followed by \<^verbatim>\<open>/api/image/{generated-name}.jpg\<close>, where the name is one
  that the generator of unique names returned; and the result manifest that
  \<open>generate_output_csv\<close> writes contains every entry of every output list of the batch verbatim.
  (That the generated names do not collide is a property of the generator, which is an oracle
  here.)
\<close>

theorem generated_image_urls:
  "(process_product_images e i s = (Inr True, s') \<and> first_product i (db s) = Some p \<longrightarrow>
      (\<exists>p'. first_product i (db s') = Some p' \<and>
         (\<forall>u \<in> set (get_output_urls p'). u \<noteq> [] \<longrightarrow>
            (\<exists>c. u = API_BASE_URL e @ ''/api/image/'' @ uuid4 e c @ ''.jpg'')))) \<and>
   (generate_output_csv e rid t = (Inr (Some path), t') \<longrightarrow>
      (\<exists>txt. files t' = files t @ [(path, txt)] \<and>
         (\<forall>q \<in> set (all_products rid (db t)). \<forall>u \<in> set (get_output_urls q). sublist u txt)))"
proof (intro conjI impI)
  assume a: "process_product_images e i s = (Inr True, s') \<and> first_product i (db s) = Some p"
  let ?outs = "expected_outputs e (input_image_urls p) (clock s + 2)"
  let ?p' = "p\<lparr>output_image_urls := Some ?outs, pstatus := COMPLETED\<rparr>"
  have p': "first_product i (db s') = Some ?p'"
    using process_product_images_True(1) [of e i s s' p] a
    by (simp add: first_product_marked_completed)
  have "\<exists>c. u = API_BASE_URL e @ ''/api/image/'' @ uuid4 e c @ ''.jpg''"
    if "u \<in> set ?outs" "u \<noteq> []" for u
  proof -
    from that(1) obtain k where "k < length (input_image_urls p)" "u = ?outs ! k"
      by (auto simp: in_set_conv_nth)
    then have "u = expected_entry e (input_image_urls p ! k)
        (reference_clocks e (input_image_urls p) (clock s + 2) ! k)"
      by (simp add: nth_expected_outputs)
    with that(2) expected_entry_cases show ?thesis
      by (metis image_url_def)
  qed
  then show "\<exists>p'. first_product i (db s') = Some p' \<and>
         (\<forall>u \<in> set (get_output_urls p'). u \<noteq> [] \<longrightarrow>
            (\<exists>c. u = API_BASE_URL e @ ''/api/image/'' @ uuid4 e c @ ''.jpg''))"
    using p' by (intro exI [of _ ?p']) (simp add: get_output_urls_def)
next
  assume g: "generate_output_csv e rid t = (Inr (Some path), t')"
  show "\<exists>txt. files t' = files t @ [(path, txt)] \<and>
         (\<forall>q \<in> set (all_products rid (db t)). \<forall>u \<in> set (get_output_urls q). sublist u txt)"
    using generate_output_csv_Some(1) [OF g] sublist_csv_text
    by (intro exI [of _ "csv_text (all_products rid (db t))"]) simp
qed

theorem generated_image_urls_witness:
  "fst (process_product_images demo_env 1 demo_state) = Inr True \<and>
   first_product 1 (db demo_state) = Some (hd demo_products) \<and>
   uuid4 demo_env 4 = ''uuidiiii'' \<and>
   (\<exists>p'. first_product 1 (db (snd (process_product_images demo_env 1 demo_state))) = Some p' \<and>
      get_output_urls p' ! 1 = ''http://localhost:8000/api/image/uuidiiii.jpg'' \<and>
      (\<exists>c. get_output_urls p' ! 1 = API_BASE_URL demo_env @ ''/api/image/'' @ uuid4 demo_env c @ ''.jpg'')) \<and>
   fst (generate_output_csv demo_env ''b1'' done_state) = Inr (Some ''/data/uploads/output_b1.csv'') \<and>
   (\<exists>txt. files (snd (generate_output_csv demo_env ''b1'' done_state))
        = files done_state @ [(''/data/uploads/output_b1.csv'', txt)] \<and>
      sublist ''http://localhost:8000/api/image/uuidiiiiiii.jpg'' txt)"
proof -
  have ok: "fst (process_product_images demo_env 1 demo_state) = Inr True"
    by (simp add: model_defs demo_env_def demo_state_def demo_products_def demo_request_def Let_def)
  then have run: "process_product_images demo_env 1 demo_state =
      (Inr True, snd (process_product_images demo_env 1 demo_state))"
    by (metis prod.collapse)
  have found: "first_product 1 (db demo_state) = Some (hd demo_products)"
    by (simp add: first_product_def demo_state_def demo_products_def)
  have outs: "map_option get_output_urls
      (first_product 1 (db (snd (process_product_images demo_env 1 demo_state))))
      = Some [[], ''http://localhost:8000/api/image/uuidiiii.jpg'']"
    by (simp add: model_defs demo_env_def demo_state_def demo_products_def demo_request_def Let_def)
  have u4: "uuid4 demo_env 4 = ''uuidiiii''"
    by (simp add: demo_env_def eval_nat_numeral)
  have gok: "fst (generate_output_csv demo_env ''b1'' done_state) = Inr (Some ''/data/uploads/output_b1.csv'')"
    by (simp add: generate_output_csv_def model_defs demo_env_def done_state_def done_db_def Let_def)
  then have grun: "generate_output_csv demo_env ''b1'' done_state =
      (Inr (Some ''/data/uploads/output_b1.csv''), snd (generate_output_csv demo_env ''b1'' done_state))"
    by (metis prod.collapse)
  have q: "hd (products done_db) \<in> set (all_products ''b1'' (db done_state))"
    "''http://localhost:8000/api/image/uuidiiiiiii.jpg'' \<in> set (get_output_urls (hd (products done_db)))"
    by (simp_all add: all_products_def done_state_def done_db_def get_output_urls_def)
  note inst = generated_image_urls [of demo_env 1 demo_state
      "snd (process_product_images demo_env 1 demo_state)" "hd demo_products"
      "''b1''" done_state "''/data/uploads/output_b1.csv''"
      "snd (generate_output_csv demo_env ''b1'' done_state)"]
  from inst run found obtain p' where
    p': "first_product 1 (db (snd (process_product_images demo_env 1 demo_state))) = Some p'"
    and form: "\<forall>u \<in> set (get_output_urls p'). u \<noteq> [] \<longrightarrow>
       (\<exists>c. u = API_BASE_URL demo_env @ ''/api/image/'' @ uuid4 demo_env c @ ''.jpg'')"
    by blast
  from p' outs have o: "get_output_urls p' = [[], ''http://localhost:8000/api/image/uuidiiii.jpg'']"
    by simp
  with form have f1: "\<exists>c. get_output_urls p' ! 1 =
      API_BASE_URL demo_env @ ''/api/image/'' @ uuid4 demo_env c @ ''.jpg''"
    by simp
  from inst grun obtain body where
    body: "files (snd (generate_output_csv demo_env ''b1'' done_state))
        = files done_state @ [(''/data/uploads/output_b1.csv'', body)]"
    and emb: "\<forall>q \<in> set (all_products ''b1'' (db done_state)). \<forall>u \<in> set (get_output_urls q). sublist u body"
    by blast
  from emb q have "sublist ''http://localhost:8000/api/image/uuidiiiiiii.jpg'' body"
    by blast
  with body p' o f1 ok found u4 gok show ?thesis by auto
qed





text \<open>
  C4. In every run of the item processor on an existing item, either an exception was raised
  (writing a file or a statement of the store raised), or the run returns \<open>True\<close>. When it
  returns \<open>True\<close> the item is \<open>COMPLETED\<close> and every reference has been processed in its turn,
  whatever happened to the references before it: the output list has one entry per input
  reference; the entry of a reference whose fetch or transform failed is the empty
  placeholder; the entry of every other reference is the URL of the image generated for it,
  and the transformed image has been written under the generated name. The item ends
  \<open>FAILED\<close> through this run only when the run caught an exception. (Reference \<open>k\<close> is fetched at
  the moment \<open>reference_clocks \<dots> ! k\<close>: the first at the moment the loop starts, each next one
  right after the one before it, failed or not.)
\<close>

theorem reference_failure_isolated:
  assumes "process_product_images e i s = (res, s')"
      and "first_product i (db s) = Some p"
  shows "(res = Inr True \<or>
            (\<exists>c. clock s \<le> c \<and> c < clock s' \<and>
                 (write_fault e c \<noteq> None \<or> db_fault e c \<noteq> None))) \<and>
         (res = Inr True \<longrightarrow>
            (\<exists>p'. first_product i (db s') = Some p' \<and> pstatus p' = COMPLETED \<and>
               length (get_output_urls p') = length (get_input_urls p) \<and>
               (\<forall>k < length (get_input_urls p).
                  if fetch_transform_failed e
                       (reference_clocks e (get_input_urls p) (clock s + 2) ! k)
                       (get_input_urls p ! k)
                  then get_output_urls p' ! k = []
                  else get_output_urls p' ! k \<noteq> [] \<and>
                       get_output_urls p' ! k =
                         image_url e
                           (uuid4 e (Suc (reference_clocks e (get_input_urls p) (clock s + 2) ! k))) \<and>
                       (path_join (PROCESSED_DIR e)
                          (uuid4 e (Suc (reference_clocks e (get_input_urls p) (clock s + 2) ! k))
                             @ ''.jpg''),
                        transformed e (reference_clocks e (get_input_urls p) (clock s + 2) ! k)
                          (get_input_urls p ! k)) \<in> set (files s')) \<and>
               (\<forall>k. Suc k < length (get_input_urls p) \<longrightarrow>
                  reference_clocks e (get_input_urls p) (clock s + 2) ! Suc k =
                    (if fetch_transform_failed e
                          (reference_clocks e (get_input_urls p) (clock s + 2) ! k)
                          (get_input_urls p ! k)
                     then Suc (reference_clocks e (get_input_urls p) (clock s + 2) ! k)
                     else reference_clocks e (get_input_urls p) (clock s + 2) ! k + 3)))) \<and>
         (res = Inr False \<longrightarrow>
            (\<exists>p'. first_product i (db s') = Some p' \<and> pstatus p' = FAILED))"
proof -
  define c0 where "c0 = clock s + 2"
  define urls where "urls = input_image_urls p"
  define cs where "cs = reference_clocks e urls c0"
  define outs where "outs = expected_outputs e urls c0"
  have A: "res = Inr True \<or>
      (\<exists>c. clock s \<le> c \<and> c < clock s' \<and> (write_fault e c \<noteq> None \<or> db_fault e c \<noteq> None))"
    using process_product_images_found [OF assms] by auto
  have B: "\<exists>p'. first_product i (db s') = Some p' \<and> pstatus p' = COMPLETED \<and>
      length (get_output_urls p') = length urls \<and>
      (\<forall>k < length urls.
         if fetch_transform_failed e (cs ! k) (urls ! k)
         then get_output_urls p' ! k = []
         else get_output_urls p' ! k \<noteq> [] \<and>
              get_output_urls p' ! k = image_url e (uuid4 e (Suc (cs ! k))) \<and>
              (path_join (PROCESSED_DIR e) (uuid4 e (Suc (cs ! k)) @ ''.jpg''),
               transformed e (cs ! k) (urls ! k)) \<in> set (files s')) \<and>
      (\<forall>k. Suc k < length urls \<longrightarrow>
         cs ! Suc k =
           (if fetch_transform_failed e (cs ! k) (urls ! k) then Suc (cs ! k) else cs ! k + 3))"
    if "res = Inr True"
  proof -
    from that assms have run: "process_product_images e i s = (Inr True, s')" by simp
    let ?p' = "p\<lparr>output_image_urls := Some outs, pstatus := COMPLETED\<rparr>"
    have p': "first_product i (db s') = Some ?p'"
      using process_product_images_True(1) [OF run assms(2)] assms(2)
      unfolding outs_def urls_def c0_def
      by (simp only: first_product_marked_completed simp_thms if_True option.map)
    have fs: "files s' = files s @ stored_files e urls c0"
      unfolding urls_def c0_def by (rule process_product_images_True_files [OF run assms(2)])
    have len: "length outs = length urls"
      by (simp add: outs_def)
    have entries: "if fetch_transform_failed e (cs ! k) (urls ! k)
        then outs ! k = []
        else outs ! k \<noteq> [] \<and> outs ! k = image_url e (uuid4 e (Suc (cs ! k))) \<and>
             (path_join (PROCESSED_DIR e) (uuid4 e (Suc (cs ! k)) @ ''.jpg''),
              transformed e (cs ! k) (urls ! k)) \<in> set (files s')"
      if "k < length urls" for k
      using that stored_files_member [of k urls e c0]
      by (simp add: nth_expected_outputs expected_entry_def fs outs_def cs_def)
    have clocks: "cs ! Suc k =
        (if fetch_transform_failed e (cs ! k) (urls ! k) then Suc (cs ! k) else cs ! k + 3)"
      if "Suc k < length urls" for k
      unfolding cs_def using that by (rule reference_clocks_Suc)
    have g: "get_output_urls ?p' = outs" "pstatus ?p' = COMPLETED"
      by (simp_all add: get_output_urls_def)
    show ?thesis
      using p' entries clocks len
      by (intro exI [of _ ?p']) (simp only: g simp_thms, blast)
  qed
  have C: "\<exists>p'. first_product i (db s') = Some p' \<and> pstatus p' = FAILED" if "res = Inr False"
  proof -
    from that process_product_images_found [OF assms]
    have "db s' = marked_failed i (db s)" by auto
    then show ?thesis using assms(2) by (simp add: first_product_marked_failed)
  qed
  from A B C show ?thesis
    unfolding get_input_urls_def cs_def urls_def c0_def by blast
qed


theorem reference_failure_isolated_witness:
  "first_product 1 (db demo_state) = Some (hd demo_products) \<and>
   fst (process_product_images demo_env 1 demo_state) = Inr True \<and>
   get_input_urls (hd demo_products) = [''http://a/1.png'', ''http://a/2.png''] \<and>
   reference_clocks demo_env (get_input_urls (hd demo_products)) (clock demo_state + 2) = [2, 3] \<and>
   fetch_transform_failed demo_env 2 ''http://a/1.png'' \<and>
   \<not> fetch_transform_failed demo_env 3 ''http://a/2.png'' \<and>
   (\<exists>p'. first_product 1 (db (snd (process_product_images demo_env 1 demo_state))) = Some p' \<and>
      pstatus p' = COMPLETED \<and> length (get_output_urls p') = 2 \<and>
      get_output_urls p' ! 0 = [] \<and>
      get_output_urls p' ! 1 = ''http://localhost:8000/api/image/uuidiiii.jpg'' \<and>
      (''/data/processed/uuidiiii.jpg'', ''jpeg'')
        \<in> set (files (snd (process_product_images demo_env 1 demo_state))))"
proof -
  let ?s' = "snd (process_product_images demo_env 1 demo_state)"
  have ok: "fst (process_product_images demo_env 1 demo_state) = Inr True"
    by (simp add: model_defs demo_env_def demo_state_def demo_products_def demo_request_def Let_def)
  have found: "first_product 1 (db demo_state) = Some (hd demo_products)"
    by (simp add: first_product_def demo_state_def demo_products_def)
  have ins: "get_input_urls (hd demo_products) = [''http://a/1.png'', ''http://a/2.png'']"
    by (simp add: get_input_urls_def demo_products_def)
  have f: "fetch_transform_failed demo_env 2 ''http://a/1.png''"
    "\<not> fetch_transform_failed demo_env 3 ''http://a/2.png''"
    by (simp_all add: fetch_transform_failed_def demo_env_def)
  have cs: "reference_clocks demo_env (get_input_urls (hd demo_products)) (clock demo_state + 2) = [2, 3]"
    using f by (simp add: ins demo_state_def eval_nat_numeral)
  have u: "image_url demo_env (uuid4 demo_env 4) = ''http://localhost:8000/api/image/uuidiiii.jpg''"
    "path_join (PROCESSED_DIR demo_env) (uuid4 demo_env 4 @ ''.jpg'') = ''/data/processed/uuidiiii.jpg''"
    "transformed demo_env 3 ''http://a/2.png'' = ''jpeg''"
    by (simp_all add: image_url_def path_join_def transformed_def demo_env_def eval_nat_numeral)
  from reference_failure_isolated [OF prod.collapse [symmetric] found] ok
  obtain p' where p': "first_product 1 (db ?s') = Some p'"
    "pstatus p' = COMPLETED" "length (get_output_urls p') = length (get_input_urls (hd demo_products))"
    and all: "\<forall>k < length (get_input_urls (hd demo_products)).
       if fetch_transform_failed demo_env
            (reference_clocks demo_env (get_input_urls (hd demo_products)) (clock demo_state + 2) ! k)
            (get_input_urls (hd demo_products) ! k)
       then get_output_urls p' ! k = []
       else get_output_urls p' ! k \<noteq> [] \<and>
            get_output_urls p' ! k =
              image_url demo_env
                (uuid4 demo_env
                   (Suc (reference_clocks demo_env (get_input_urls (hd demo_products))
                           (clock demo_state + 2) ! k))) \<and>
            (path_join (PROCESSED_DIR demo_env)
               (uuid4 demo_env
                  (Suc (reference_clocks demo_env (get_input_urls (hd demo_products))
                          (clock demo_state + 2) ! k)) @ ''.jpg''),
             transformed demo_env
               (reference_clocks demo_env (get_input_urls (hd demo_products))
                  (clock demo_state + 2) ! k)
               (get_input_urls (hd demo_products) ! k)) \<in> set (files ?s')"
    by blast
  have e0: "get_output_urls p' ! 0 = []"
    using all [rule_format, of 0] f(1) unfolding cs by (simp add: ins)
  have e1: "get_output_urls p' ! 1 = ''http://localhost:8000/api/image/uuidiiii.jpg'' \<and>
      (''/data/processed/uuidiiii.jpg'', ''jpeg'') \<in> set (files ?s')"
    using all [rule_format, of 1] f(2) unfolding cs by (simp add: ins u)
  have len: "length (get_output_urls p') = 2"
    using p'(3) by (simp add: ins)
  from p'(1,2) len e0 e1 ok found ins f cs show ?thesis by blast
qed

text \<open>
  C7, as stated, fails when the statements of the \<^verbatim>\<open>except\<close> block raise as well. In the world
  where the store raises from the first commit inside the item loop on, the exception escapes
  the loop, the lookup of the batch in the \<^verbatim>\<open>except\<close> block raises again, and that
  exception leaves the task: no result object is returned and the batch status stays
  \<open>PROCESSING\<close>.
\<close>

theorem driver_fault_counterexample:
  "fst (process_images_body locked_env ''b1'' demo_state)
     = Inl (OperationalError ''database is locked'') \<and>
   fst (process_images_task locked_env ''b1'' demo_state)
     = Inl (OperationalError ''database is locked'') \<and>
   map_option status (requests (db (snd (process_images_task locked_env ''b1'' demo_state))) ''b1'')
     = Some PROCESSING"
  by (simp add: model_defs locked_env_def demo_env_def demo_state_def demo_products_def
      demo_request_def Let_def)

text \<open>
  C7, amended. For every existing batch: if an exception escapes the \<^verbatim>\<open>try\<close> block of the
  driver (from the item loop or from the statements around it), leaving the state \<open>s1\<close>, and
  the lookup and the commit of the \<^verbatim>\<open>except\<close> block do not raise, then the task returns the
  error result with the batch identifier and the text of the exception, the batch status is
  \<open>FAILED\<close>, and nothing else has changed since the exception was raised: the items are as
  they were in \<open>s1\<close>, and every store committed before is still in the history, followed by the
  one commit of the \<^verbatim>\<open>except\<close> block. If the lookup or the commit of the \<^verbatim>\<open>except\<close>
  block raises, that exception leaves the task, no result is returned and the store is as it
  was in \<open>s1\<close>. If no exception escapes the \<^verbatim>\<open>try\<close> block, the task returns the success
  result.
\<close>

theorem driver_fault_handling:
  assumes "requests (db s) rid = Some r"
  shows "(process_images_body e rid s = (Inl x, s1) \<and>
          db_fault e (clock s1) = None \<and> db_fault e (Suc (clock s1)) = None \<longrightarrow>
            process_images_task e rid s =
              (Inr (error_result rid x),
               s1\<lparr>db := with_status rid FAILED (db s1),
                   history := history s1 @ [with_status rid FAILED (db s1)],
                   clock := clock s1 + 2\<rparr>) \<and>
            map_option status (requests (with_status rid FAILED (db s1)) rid) = Some FAILED \<and>
            products (with_status rid FAILED (db s1)) = products (db s1)) \<and>
         (process_images_body e rid s = (Inl x, s1) \<and> db_fault e (clock s1) = Some y \<longrightarrow>
            process_images_task e rid s = (Inl y, s1\<lparr>clock := clock s1 + 1\<rparr>)) \<and>
         (process_images_body e rid s = (Inl x, s1) \<and>
          db_fault e (clock s1) = None \<and> db_fault e (Suc (clock s1)) = Some y \<longrightarrow>
            process_images_task e rid s = (Inl y, s1\<lparr>clock := clock s1 + 2\<rparr>)) \<and>
         (process_images_body e rid s = (Inr res, s1) \<longrightarrow>
            process_images_task e rid s = (Inr (success_result rid), s1))"
proof -
  have A: "process_images_task e rid s =
              (Inr (error_result rid x),
               s1\<lparr>db := with_status rid FAILED (db s1),
                   history := history s1 @ [with_status rid FAILED (db s1)],
                   clock := clock s1 + 2\<rparr>) \<and>
            map_option status (requests (with_status rid FAILED (db s1)) rid) = Some FAILED \<and>
            products (with_status rid FAILED (db s1)) = products (db s1)"
    if a: "process_images_body e rid s = (Inl x, s1)"
      "db_fault e (clock s1) = None" "db_fault e (Suc (clock s1)) = None"
  proof -
    from body_Inl_request [OF a(1) assms] obtain r1 where r1: "requests (db s1) rid = Some r1"
      by blast
    have "process_images_handler e rid x s1 =
        (Inr (error_result rid x),
         s1\<lparr>db := with_status rid FAILED (db s1),
             history := history s1 @ [with_status rid FAILED (db s1)],
             clock := clock s1 + 2\<rparr>)"
      by (simp add: process_images_handler_def io_bind_def ret_def error_result_def
          set_request_status_ok [OF r1 a(2,3)])
    with a(1) have "process_images_task e rid s =
        (Inr (error_result rid x),
         s1\<lparr>db := with_status rid FAILED (db s1),
             history := history s1 @ [with_status rid FAILED (db s1)],
             clock := clock s1 + 2\<rparr>)"
      by (simp add: process_images_task_def process_images_def try_except_def)
    moreover have "map_option status (requests (with_status rid FAILED (db s1)) rid) = Some FAILED"
      by (simp add: requests_with_status [OF r1])
    ultimately show ?thesis by simp
  qed
  have B: "process_images_task e rid s = (Inr (success_result rid), s1)"
    if b: "process_images_body e rid s = (Inr res, s1)"
    using body_Inr_success [OF b] b
    by (simp add: process_images_task_def process_images_def try_except_def)
  have C: "process_images_task e rid s = (Inl y, s1\<lparr>clock := clock s1 + 1\<rparr>)"
    if c: "process_images_body e rid s = (Inl x, s1)" "db_fault e (clock s1) = Some y"
    using c(1)
    by (simp add: process_images_task_def process_images_def try_except_def
        process_images_handler_def io_bind_def set_request_status_query_fault [OF c(2)])
  have D: "process_images_task e rid s = (Inl y, s1\<lparr>clock := clock s1 + 2\<rparr>)"
    if d: "process_images_body e rid s = (Inl x, s1)"
      "db_fault e (clock s1) = None" "db_fault e (Suc (clock s1)) = Some y"
  proof -
    from body_Inl_request [OF d(1) assms] obtain r1 where r1: "requests (db s1) rid = Some r1"
      by blast
    show ?thesis
      using d(1)
      by (simp add: process_images_task_def process_images_def try_except_def
          process_images_handler_def io_bind_def set_request_status_commit_fault [OF r1 d(2,3)])
  qed
  from A B C D show ?thesis by blast
qed

theorem driver_fault_handling_witness:
  "requests (db demo_state) ''b1'' = Some demo_request \<and>
   fst (process_images_body glitch_env ''b1'' demo_state)
     = Inl (OperationalError ''database is locked'') \<and>
   clock (snd (process_images_body glitch_env ''b1'' demo_state)) = 16 \<and>
   db_fault glitch_env 16 = None \<and> db_fault glitch_env 17 = None \<and>
   fst (process_images_task glitch_env ''b1'' demo_state)
     = Inr (error_result ''b1'' (OperationalError ''database is locked'')) \<and>
   map_option status (requests (db (snd (process_images_task glitch_env ''b1'' demo_state))) ''b1'')
     = Some FAILED \<and>
   map pstatus (products (db (snd (process_images_task glitch_env ''b1'' demo_state))))
     = [COMPLETED, PENDING] \<and>
   map pstatus (products (db (snd (process_images_body glitch_env ''b1'' demo_state))))
     = [COMPLETED, PENDING]"
proof -
  let ?s1 = "snd (process_images_body glitch_env ''b1'' demo_state)"
  let ?x = "OperationalError ''database is locked''"
  have r: "requests (db demo_state) ''b1'' = Some demo_request"
    by (simp add: demo_state_def)
  have raised: "fst (process_images_body glitch_env ''b1'' demo_state) = Inl ?x"
    by (simp add: model_defs glitch_env_def demo_env_def demo_state_def demo_products_def
        demo_request_def Let_def)
  then have body: "process_images_body glitch_env ''b1'' demo_state = (Inl ?x, ?s1)"
    by (metis prod.collapse)
  have c: "clock ?s1 = 16"
    by (simp add: model_defs glitch_env_def demo_env_def demo_state_def demo_products_def
        demo_request_def Let_def)
  have items: "map pstatus (products (db ?s1)) = [COMPLETED, PENDING]"
    by (simp add: model_defs glitch_env_def demo_env_def demo_state_def demo_products_def
        demo_request_def Let_def)
  have f: "db_fault glitch_env 16 = None" "db_fault glitch_env 17 = None"
    by (simp_all add: glitch_env_def)
  have f': "db_fault glitch_env (clock ?s1) = None" "db_fault glitch_env (Suc (clock ?s1)) = None"
    unfolding c by (simp_all add: glitch_env_def)
  from driver_fault_handling [OF r, of glitch_env ?x ?s1] body f'
  have run: "process_images_task glitch_env ''b1'' demo_state =
      (Inr (error_result ''b1'' ?x),
       ?s1\<lparr>db := with_status ''b1'' FAILED (db ?s1),
           history := history ?s1 @ [with_status ''b1'' FAILED (db ?s1)],
           clock := clock ?s1 + 2\<rparr>)"
    and st: "map_option status (requests (with_status ''b1'' FAILED (db ?s1)) ''b1'') = Some FAILED"
    and pr: "products (with_status ''b1'' FAILED (db ?s1)) = products (db ?s1)"
    by blast+
  have "fst (process_images_task glitch_env ''b1'' demo_state) = Inr (error_result ''b1'' ?x)"
    "db (snd (process_images_task glitch_env ''b1'' demo_state)) = with_status ''b1'' FAILED (db ?s1)"
    by (simp_all add: run)
  with st pr items r raised c f show ?thesis by simp
qed




section \<open>C6: the driver handles the items in order, aggregating after each\<close>

text \<open>
  C6, as stated, fails for the processed count on a batch that an earlier run left behind
  unfinished. Re-running the finished batch \<open>b1\<close> in a world where the store fails from the
  second item's final commit on (\<open>stuck_env\<close>) raises out of the task and leaves
  \<open>stale_state\<close>: the second item is \<open>PROCESSING\<close>, the stored processed count is still 2,
  but only one item is terminal. During the next run the stored processed count is 2 until
  the aggregation after the first item writes 1: it has decreased.
\<close>

theorem processed_count_drops_counterexample:
  "fst (process_images_task stuck_env ''b1'' done_state)
     = Inl (OperationalError ''database is locked'') \<and>
   db (snd (process_images_task stuck_env ''b1'' done_state)) = db stale_state \<and>
   map_option processed_products (requests (db stale_state) ''b1'') = Some 2 \<and>
   count_terminal ''b1'' (db stale_state) = 1 \<and>
   map (\<lambda>d. map_option processed_products (requests d ''b1''))
     (history (snd (process_images_task demo_env ''b1'' stale_state)))
     = [Some 2, Some 2, Some 2, Some 1, Some 1, Some 1, Some 2]"
proof -
  have "fst (process_images_task stuck_env ''b1'' done_state)
     = Inl (OperationalError ''database is locked'')"
    by (simp add: model_defs stuck_env_def demo_env_def done_state_def done_db_def Let_def)
  moreover have "db (snd (process_images_task stuck_env ''b1'' done_state)) = db stale_state"
    by (simp add: model_defs stuck_env_def demo_env_def done_state_def done_db_def
        stale_state_def Let_def eval_nat_numeral)
  moreover have "map_option processed_products (requests (db stale_state) ''b1'') = Some 2"
    by (simp add: stale_state_def)
  moreover have "count_terminal ''b1'' (db stale_state) = 1"
    by (simp add: count_terminal_def count_completed_def count_failed_def count_products_def
        all_products_def stale_state_def)
  moreover have "map (\<lambda>d. map_option processed_products (requests d ''b1''))
     (history (snd (process_images_task demo_env ''b1'' stale_state)))
     = [Some 2, Some 2, Some 2, Some 1, Some 1, Some 1, Some 2]"
    by (simp add: model_defs demo_env_def stale_state_def Let_def)
  ultimately show ?thesis by blast
qed

text \<open>
  C6, amended. For every existing batch and every run of the task, in every world: the
  stores that the run commits are, in this order, the batch set to \<open>PROCESSING\<close>, then for
  each item of the batch, in the order in which the query returned the items (the order of
  the rows of the table, which is the order in which the manifest rows were inserted), the
  item marked \<open>PROCESSING\<close>, the item concluded (\<open>COMPLETED\<close> with its outputs, or \<open>FAILED\<close>),
  and the aggregation of exactly that store; and last at most one commit of the notifier (the
  flag) or of the \<^verbatim>\<open>except\<close> block (\<open>FAILED\<close>). A run that an exception cuts short has
  committed a prefix of this sequence; a run that returns the success result has committed
  all of it, one round for every item; and in a world whose store never fails the run
  returns the success result. Along the stores that the run commits, the rank of the batch
  status (\<open>PENDING\<close>, then \<open>PROCESSING\<close>, then the two terminal statuses) never decreases; and
  when the stored processed count does not exceed the number of terminal items at the start
  (it is 0 for a new batch), the processed count never decreases from the start on.
\<close>

theorem batch_progress_in_order:
  assumes "requests (db s) rid = Some r"
      and "process_images_task e rid s = (res, s')"
  shows "\<exists>pre outcomes post.
      history s' = history s @ pre @ post \<and> db s' = last (db s # pre @ post) \<and>
      length outcomes \<le> length (all_products rid (db s)) \<and>
      prefix pre (with_status rid PROCESSING (db s) #
                  rounds rid (map pid (all_products rid (db s))) outcomes
                    (with_status rid PROCESSING (db s))) \<and>
      (post = [] \<or> post = [flagged rid (last (db s # pre))] \<or>
       post = [with_status rid FAILED (last (db s # pre))]) \<and>
      (res = Inr (success_result rid) \<longrightarrow>
         length outcomes = length (all_products rid (db s)) \<and>
         pre = with_status rid PROCESSING (db s) #
               rounds rid (map pid (all_products rid (db s))) outcomes
                 (with_status rid PROCESSING (db s))) \<and>
      (reliable_store e \<longrightarrow> res = Inr (success_result rid)) \<and>
      successively (status_progress rid) (pre @ post) \<and>
      (processed_products r \<le> count_terminal rid (db s) \<longrightarrow>
         successively (count_progress rid) (db s # pre @ post))"
proof -
  define d0 where "d0 = with_status rid PROCESSING (db s)"
  define items where "items = all_products rid (db s)"
  from task_trace [OF assms, folded d0_def items_def]
  obtain pre outcomes post where
    T: "history s' = history s @ pre @ post" "db s' = last (db s # pre @ post)"
      "length outcomes \<le> length items"
      "prefix pre (d0 # rounds rid (map pid items) outcomes d0)"
      "post = [] \<or> post = [flagged rid (last (db s # pre))] \<or>
       post = [with_status rid FAILED (last (db s # pre))]"
      "res = Inr (success_result rid) \<longrightarrow>
         length outcomes = length items \<and> pre = d0 # rounds rid (map pid items) outcomes d0"
    by blast
  have r0: "requests d0 rid = Some (r\<lparr>status := PROCESSING\<rparr>)"
    using assms(1) by (simp add: d0_def requests_with_status)
  have "successively (status_progress rid) (d0 # rounds rid (map pid items) outcomes d0)"
    by (rule rounds_status_progress [OF r0]) simp
  then have sp: "successively (status_progress rid) pre"
    using T(4) by (rule successively_prefix)
  have last_pre: "pre \<noteq> [] \<Longrightarrow> last (db s # pre) = last pre" by simp
  have SP: "successively (status_progress rid) (pre @ post)"
    using T(5)
  proof (elim disjE)
    assume "post = []"
    then show ?thesis using sp by simp
  next
    assume p: "post = [flagged rid (last (db s # pre))]"
    show ?thesis unfolding p
      by (rule successively_snoc [OF sp]) (auto simp: status_progress_flagged)
  next
    assume p: "post = [with_status rid FAILED (last (db s # pre))]"
    show ?thesis unfolding p
      by (rule successively_snoc [OF sp]) (auto simp: status_progress_failed)
  qed
  have CP: "successively (count_progress rid) (db s # pre @ post)"
    if le: "processed_products r \<le> count_terminal rid (db s)"
  proof -
    have "successively (count_progress rid) (d0 # rounds rid (map pid items) outcomes d0)"
      by (rule rounds_count_progress [OF r0]) (simp add: d0_def le)
    then have "successively (count_progress rid)
        (db s # d0 # rounds rid (map pid items) outcomes d0)"
      by (simp add: d0_def count_progress_with_status)
    moreover have "prefix (db s # pre) (db s # d0 # rounds rid (map pid items) outcomes d0)"
      using T(4) by simp
    ultimately have cp: "successively (count_progress rid) (db s # pre)"
      by (rule successively_prefix)
    from T(5) show ?thesis
    proof (elim disjE)
      assume "post = []"
      then show ?thesis using cp by simp
    next
      assume p: "post = [flagged rid (last (db s # pre))]"
      have "successively (count_progress rid) ((db s # pre) @ post)" unfolding p
        by (rule successively_snoc [OF cp]) (simp add: count_progress_flagged)
      then show ?thesis by simp
    next
      assume p: "post = [with_status rid FAILED (last (db s # pre))]"
      have "successively (count_progress rid) ((db s # pre) @ post)" unfolding p
        by (rule successively_snoc [OF cp]) (simp add: count_progress_with_status)
      then show ?thesis by simp
    qed
  qed
  have R: "reliable_store e \<longrightarrow> res = Inr (success_result rid)"
    using task_reliable [OF _ assms(2)] by blast
  from T R SP CP show ?thesis unfolding d0_def items_def by blast
qed

theorem batch_progress_in_order_witness:
  "requests (db demo_state) ''b1'' = Some demo_request \<and>
   reliable_store demo_env \<and>
   processed_products demo_request \<le> count_terminal ''b1'' (db demo_state) \<and>
   fst (process_images_task demo_env ''b1'' demo_state) = Inr (success_result ''b1'') \<and>
   (\<exists>outcomes post.
      length outcomes = 2 \<and>
      history notified_state =
        with_status ''b1'' PROCESSING (db demo_state) #
        rounds ''b1'' [1, 2] outcomes (with_status ''b1'' PROCESSING (db demo_state)) @ post) \<and>
   successively (status_progress ''b1'') (history notified_state) \<and>
   successively (count_progress ''b1'') (db demo_state # history notified_state) \<and>
   map (\<lambda>d. map pstatus (products d)) (history notified_state)
     = [[PENDING, PENDING], [PROCESSING, PENDING], [COMPLETED, PENDING], [COMPLETED, PENDING],
        [COMPLETED, PROCESSING], [COMPLETED, COMPLETED], [COMPLETED, COMPLETED],
        [COMPLETED, COMPLETED]] \<and>
   map (\<lambda>d. map_option (\<lambda>r. (status r, processed_products r)) (requests d ''b1''))
     (history notified_state)
     = [Some (PROCESSING, 0), Some (PROCESSING, 0), Some (PROCESSING, 0), Some (PROCESSING, 1),
        Some (PROCESSING, 1), Some (PROCESSING, 1), Some (COMPLETED, 2), Some (COMPLETED, 2)]"
proof -
  let ?run = "process_images_task demo_env ''b1'' demo_state"
  let ?d0 = "with_status ''b1'' PROCESSING (db demo_state)"
  have r: "requests (db demo_state) ''b1'' = Some demo_request"
    by (simp add: demo_state_def)
  have run: "?run = (fst ?run, notified_state)"
    by (simp add: notified_state_def)
  have rel: "reliable_store demo_env"
    by (simp add: reliable_store_def demo_env_def)
  have le: "processed_products demo_request \<le> count_terminal ''b1'' (db demo_state)"
    by (simp add: count_terminal_def count_completed_def count_failed_def count_products_def
        all_products_def demo_state_def demo_products_def demo_request_def)
  have items: "map pid (all_products ''b1'' (db demo_state)) = [1, 2]"
    "length (all_products ''b1'' (db demo_state)) = 2"
    by (simp_all add: all_products_def demo_state_def demo_products_def)
  have h0: "history demo_state = []"
    by (simp add: demo_state_def)
  from batch_progress_in_order [OF r run] obtain pre outcomes post where
    T: "history notified_state = history demo_state @ pre @ post"
      "fst ?run = Inr (success_result ''b1'') \<longrightarrow>
         length outcomes = length (all_products ''b1'' (db demo_state)) \<and>
         pre = ?d0 # rounds ''b1'' (map pid (all_products ''b1'' (db demo_state))) outcomes ?d0"
      "reliable_store demo_env \<longrightarrow> fst ?run = Inr (success_result ''b1'')"
      "successively (status_progress ''b1'') (pre @ post)"
      "processed_products demo_request \<le> count_terminal ''b1'' (db demo_state) \<longrightarrow>
         successively (count_progress ''b1'') (db demo_state # pre @ post)"
    by blast
  from T(3) rel have ok: "fst ?run = Inr (success_result ''b1'')" by blast
  with T(2) have full: "length outcomes = 2" "pre = ?d0 # rounds ''b1'' [1, 2] outcomes ?d0"
    unfolding items by blast+
  have h: "history notified_state = pre @ post" using T(1) h0 by simp
  have "\<exists>outcomes post.
      length outcomes = 2 \<and>
      history notified_state = ?d0 # rounds ''b1'' [1, 2] outcomes ?d0 @ post"
    using h full by auto
  moreover have "successively (status_progress ''b1'') (history notified_state)"
    using T(4) h by simp
  moreover have "successively (count_progress ''b1'') (db demo_state # history notified_state)"
    using T(5) le h by simp
  moreover have "map (\<lambda>d. map pstatus (products d)) (history notified_state)
     = [[PENDING, PENDING], [PROCESSING, PENDING], [COMPLETED, PENDING], [COMPLETED, PENDING],
        [COMPLETED, PROCESSING], [COMPLETED, COMPLETED], [COMPLETED, COMPLETED],
        [COMPLETED, COMPLETED]]"
    by (simp add: notified_state_def model_defs demo_env_def demo_state_def demo_request_def
        demo_products_def Let_def)
  moreover have "map (\<lambda>d. map_option (\<lambda>r. (status r, processed_products r)) (requests d ''b1''))
     (history notified_state)
     = [Some (PROCESSING, 0), Some (PROCESSING, 0), Some (PROCESSING, 0), Some (PROCESSING, 1),
        Some (PROCESSING, 1), Some (PROCESSING, 1), Some (COMPLETED, 2), Some (COMPLETED, 2)]"
    by (simp add: notified_state_def model_defs demo_env_def demo_state_def demo_request_def
        demo_products_def Let_def)
  ultimately show ?thesis using r rel le ok by blast
qed

end
